theory Spec2Isabelle
  imports Main "HOL-Library.Word" "HOL-Library.Sublist"
begin

section \<open>Durable execution engine: data model\<close>

text \<open>
  The engine package: the step key generator, the SQLite-backed \<open>Storage\<close>, the
  workflow \<open>Context\<close> with the \<open>Step\<close> primitive, and \<open>Engine.Execute\<close>.
  Go's \<open>int64\<close> is a 64-bit word read as two's complement (\<open>sint\<close>); a Go string and a
  \<open>[]byte\<close> are lists of bytes (a nil slice and an empty one are both \<open>[]\<close>: the code never
  compares a slice with nil).
\<close>

type_synonym int64 = "64 word"
type_synonym bytes = string

subsection \<open>Step keys: \<open>fmt.Sprintf("%s:%d", stepID, sequenceNum)\<close>\<close>

text \<open>The verb \<open>%d\<close> prints a signed integer in base 10, with a leading minus sign
  when it is negative and no leading zeros. \<open>digit\<close> is only applied to numbers
  below 10.\<close>

definition digit :: "nat \<Rightarrow> char" where
  "digit d = ''0123456789'' ! d"

fun decimal :: "nat \<Rightarrow> string" where
  "decimal n = (if n < 10 then [digit n] else decimal (n div 10) @ [digit (n mod 10)])"

definition FormatInt :: "int \<Rightarrow> string" where
  "FormatInt i = (if i < 0 then CHR ''-'' # decimal (nat (- i)) else decimal (nat i))"

definition generateStepKey :: "string \<Rightarrow> int64 \<Rightarrow> string" where
  "generateStepKey stepID sequenceNum = stepID @ '':'' @ FormatInt (sint sequenceNum)"

text \<open>Reading a decimal numeral back: used only to show that printing loses nothing.\<close>

definition digit_val :: "char \<Rightarrow> nat" where
  "digit_val c = of_char c - 48"

definition undecimal :: "string \<Rightarrow> nat" where
  "undecimal cs = foldl (\<lambda>a c. 10 * a + digit_val c) 0 cs"

definition ParseInt :: "string \<Rightarrow> int" where
  "ParseInt cs = (case cs of [] \<Rightarrow> 0
     | c # ds \<Rightarrow> if c = CHR ''-'' then - int (undecimal ds) else int (undecimal cs))"

subsection \<open>Errors\<close>

text \<open>Go \<open>error\<close> values: the sentinel \<open>sql.ErrNoRows\<close>, \<open>errors.New(msg)\<close> (also the
  errors the database driver hands back) and \<open>fmt.Errorf(prefix + ": %w", err)\<close>.
  \<open>Error\<close> is the method \<open>err.Error()\<close>.\<close>

datatype error = ErrNoRows | New string | Errorf string error

fun Error :: "error \<Rightarrow> string" where
  "Error ErrNoRows = ''sql: no rows in result set''"
| "Error (New msg) = msg"
| "Error (Errorf msg err) = msg @ '': '' @ Error err"

subsection \<open>Storage: the tables of \<open>initSchema\<close> and the driver\<close>

text \<open>
  A row of table \<open>steps\<close> and of table \<open>workflows\<close>. The rows of a table are kept in
  rowid order (\<open>id INTEGER PRIMARY KEY AUTOINCREMENT\<close>), the timestamps are left out.
  \<open>output_col\<close> and \<open>error_col\<close> are the nullable columns \<open>output\<close> and
  \<open>error\<close>. Column \<open>step_key\<close> is declared \<open>UNIQUE\<close> over the whole table, not per
  workflow. Foreign keys are not enforced (the pragma is never set). A \<open>SELECT\<close> without
  \<open>ORDER BY\<close> reads the rows in the order of the list.
  Field \<open>driver\<close> lists what the database driver answers to the coming calls, in order:
  \<open>Some msg\<close> fails the call with that message, \<open>None\<close> (or an exhausted list) lets the
  statement run.
\<close>

record step_row =
  workflow_id :: string
  step_id :: string
  sequence_num :: int64
  step_key :: string
  status :: string
  output_col :: "bytes option"
  error_col :: "string option"

record workflow_row =
  wf_id :: string
  wf_status :: string

record Storage =
  workflows :: "workflow_row list"
  steps :: "step_row list"
  driver :: "string option list"

definition db_call :: "Storage \<Rightarrow> error option \<times> Storage" where
  "db_call s = (case driver s of
       [] \<Rightarrow> (None, s)
     | None # ds \<Rightarrow> (None, s\<lparr>driver := ds\<rparr>)
     | Some msg # ds \<Rightarrow> (Some (New msg), s\<lparr>driver := ds\<rparr>))"

definition db_Exec :: "(Storage \<Rightarrow> Storage) \<Rightarrow> Storage \<Rightarrow> error option \<times> Storage" where
  "db_Exec stmt s = (case db_call s of
       (Some err, s') \<Rightarrow> (Some err, s')
     | (None, s') \<Rightarrow> (None, stmt s'))"

definition isSQLiteBusy :: "error \<Rightarrow> bool" where
  "isSQLiteBusy err \<longleftrightarrow>
     sublist ''SQLITE_BUSY'' (Error err) \<or> sublist ''database is locked'' (Error err)"

text \<open>\<open>retryOnBusy\<close>: at most \<open>maxRetries = 5\<close> attempts; the argument of the loop is the
  number of attempts left after the current one. The back-off sleep is not modelled.\<close>

fun retryLoop :: "nat \<Rightarrow> (Storage \<Rightarrow> error option \<times> Storage) \<Rightarrow> Storage
    \<Rightarrow> error option \<times> Storage" where
  "retryLoop 0 fn s = (case fn s of
       (None, s') \<Rightarrow> (None, s')
     | (Some err, s') \<Rightarrow>
         if \<not> isSQLiteBusy err then (Some err, s')
         else (Some (Errorf ''max retries exceeded'' err), s'))"
| "retryLoop (Suc k) fn s = (case fn s of
       (None, s') \<Rightarrow> (None, s')
     | (Some err, s') \<Rightarrow>
         if \<not> isSQLiteBusy err then (Some err, s')
         else retryLoop k fn s')"

definition retryOnBusy :: "(Storage \<Rightarrow> error option \<times> Storage) \<Rightarrow> Storage
    \<Rightarrow> error option \<times> Storage" where
  "retryOnBusy fn s = retryLoop 4 fn s"

text \<open>The SQL statements, as functions on the tables.\<close>

definition insert_or_ignore_workflow :: "string \<Rightarrow> string \<Rightarrow> Storage \<Rightarrow> Storage" where
  "insert_or_ignore_workflow workflowID st s =
     (if \<exists>r \<in> set (workflows s). wf_id r = workflowID then s
      else s\<lparr>workflows := workflows s @ [\<lparr>wf_id = workflowID, wf_status = st\<rparr>]\<rparr>)"

definition update_workflow_status :: "string \<Rightarrow> string \<Rightarrow> Storage \<Rightarrow> Storage" where
  "update_workflow_status st workflowID s =
     s\<lparr>workflows := map (\<lambda>r. if wf_id r = workflowID then r\<lparr>wf_status := st\<rparr> else r)
                         (workflows s)\<rparr>"

definition upsert_step_in_progress ::
    "string \<Rightarrow> string \<Rightarrow> string \<Rightarrow> int64 \<Rightarrow> Storage \<Rightarrow> Storage" where
  "upsert_step_in_progress workflowID stepKey stepID sequenceNum s =
     (if \<exists>r \<in> set (steps s). step_key r = stepKey
      then s\<lparr>steps := map (\<lambda>r. if step_key r = stepKey then r\<lparr>status := ''in_progress''\<rparr> else r)
                           (steps s)\<rparr>
      else s\<lparr>steps := steps s @
             [\<lparr>workflow_id = workflowID, step_id = stepID, sequence_num = sequenceNum,
               step_key = stepKey, status = ''in_progress'', output_col = None,
               error_col = None\<rparr>]\<rparr>)"

definition update_step_completed :: "bytes \<Rightarrow> string \<Rightarrow> string \<Rightarrow> Storage \<Rightarrow> Storage" where
  "update_step_completed out workflowID stepKey s =
     s\<lparr>steps := map (\<lambda>r. if workflow_id r = workflowID \<and> step_key r = stepKey
                          then r\<lparr>status := ''completed'', output_col := Some out\<rparr> else r)
                     (steps s)\<rparr>"

definition update_step_failed :: "string \<Rightarrow> string \<Rightarrow> string \<Rightarrow> Storage \<Rightarrow> Storage" where
  "update_step_failed errMsg workflowID stepKey s =
     s\<lparr>steps := map (\<lambda>r. if workflow_id r = workflowID \<and> step_key r = stepKey
                          then r\<lparr>status := ''failed'', error_col := Some errMsg\<rparr> else r)
                     (steps s)\<rparr>"

definition select_step :: "Storage \<Rightarrow> string \<Rightarrow> string \<Rightarrow> step_row option" where
  "select_step s workflowID stepKey =
     find (\<lambda>r. workflow_id r = workflowID \<and> step_key r = stepKey) (steps s)"

definition workflow_steps :: "Storage \<Rightarrow> string \<Rightarrow> step_row list" where
  "workflow_steps s workflowID = filter (\<lambda>r. workflow_id r = workflowID) (steps s)"

text \<open>\<open>MAX(sequence_num)\<close>: NULL over no rows, else the largest value as a signed integer.\<close>

definition sql_max :: "int64 list \<Rightarrow> int64 option" where
  "sql_max xs = (case xs of
       [] \<Rightarrow> None
     | x # ys \<Rightarrow> Some (foldl (\<lambda>m y. if sint m < sint y then y else m) x ys))"

text \<open>Scanning a nullable BLOB into a \<open>[]byte\<close>: NULL gives the nil slice.\<close>

definition scan_blob :: "bytes option \<Rightarrow> bytes" where
  "scan_blob b = (case b of None \<Rightarrow> [] | Some bs \<Rightarrow> bs)"

subsection \<open>Storage: the methods\<close>

definition CreateWorkflow :: "Storage \<Rightarrow> string \<Rightarrow> error option \<times> Storage" where
  "CreateWorkflow s workflowID =
     retryOnBusy (db_Exec (insert_or_ignore_workflow workflowID ''running'')) s"

definition UpdateWorkflowStatus :: "Storage \<Rightarrow> string \<Rightarrow> string \<Rightarrow> error option \<times> Storage" where
  "UpdateWorkflowStatus s workflowID st =
     retryOnBusy (db_Exec (update_workflow_status st workflowID)) s"

definition QueryRow_step :: "Storage \<Rightarrow> string \<Rightarrow> string
    \<Rightarrow> (error + bytes \<times> string) \<times> Storage" where
  "QueryRow_step s workflowID stepKey = (case db_call s of
       (Some err, s') \<Rightarrow> (Inl err, s')
     | (None, s') \<Rightarrow> (case select_step s' workflowID stepKey of
           None \<Rightarrow> (Inl ErrNoRows, s')
         | Some r \<Rightarrow> (Inr (scan_blob (output_col r), status r), s')))"

definition GetStep :: "Storage \<Rightarrow> string \<Rightarrow> string
    \<Rightarrow> (bytes \<times> bool \<times> error option) \<times> Storage" where
  "GetStep s workflowID stepKey = (case QueryRow_step s workflowID stepKey of
       (Inl err, s') \<Rightarrow>
         if err = ErrNoRows then (([], False, None), s')
         else (([], False, Some (Errorf ''failed to get step'' err)), s')
     | (Inr (out, st), s') \<Rightarrow>
         if st \<noteq> ''completed'' then (([], False, None), s')
         else ((out, True, None), s'))"

definition MarkStepInProgress :: "Storage \<Rightarrow> string \<Rightarrow> string \<Rightarrow> string \<Rightarrow> int64
    \<Rightarrow> error option \<times> Storage" where
  "MarkStepInProgress s workflowID stepKey stepID sequenceNum =
     retryOnBusy (db_Exec (upsert_step_in_progress workflowID stepKey stepID sequenceNum)) s"

definition SaveStep :: "Storage \<Rightarrow> string \<Rightarrow> string \<Rightarrow> bytes \<Rightarrow> error option \<times> Storage" where
  "SaveStep s workflowID stepKey out =
     retryOnBusy (db_Exec (update_step_completed out workflowID stepKey)) s"

definition SaveStepError :: "Storage \<Rightarrow> string \<Rightarrow> string \<Rightarrow> string
    \<Rightarrow> error option \<times> Storage" where
  "SaveStepError s workflowID stepKey errMsg =
     retryOnBusy (db_Exec (update_step_failed errMsg workflowID stepKey)) s"

definition GetMaxSequenceNum :: "Storage \<Rightarrow> string \<Rightarrow> (int64 \<times> error option) \<times> Storage" where
  "GetMaxSequenceNum s workflowID = (case db_call s of
       (Some err, s') \<Rightarrow> ((0, Some (Errorf ''failed to get max sequence'' err)), s')
     | (None, s') \<Rightarrow> (case sql_max (map sequence_num (workflow_steps s' workflowID)) of
           None \<Rightarrow> ((0, None), s')
         | Some maxSeq \<Rightarrow> ((maxSeq, None), s')))"

text \<open>
  The two loaders run a query, fill a Go map row by row (a later row overwrites an earlier
  one with the same key) and end with \<open>rows.Err()\<close>, a second answer of the driver. With
  an error they return no usable map: the one caller drops it.
\<close>

definition LoadCompletedSteps :: "Storage \<Rightarrow> string
    \<Rightarrow> (error + (string \<rightharpoonup> bytes)) \<times> Storage" where
  "LoadCompletedSteps s workflowID = (case db_call s of
       (Some err, s') \<Rightarrow> (Inl (Errorf ''failed to load steps'' err), s')
     | (None, s') \<Rightarrow>
         (let rows = filter (\<lambda>r. status r = ''completed'') (workflow_steps s' workflowID);
              m = foldl (\<lambda>m r. m(step_key r \<mapsto> scan_blob (output_col r))) Map.empty rows
          in case db_call s' of
               (Some err, s'') \<Rightarrow> (Inl err, s'')
             | (None, s'') \<Rightarrow> (Inr m, s'')))"

definition LoadStepIDMapping :: "Storage \<Rightarrow> string
    \<Rightarrow> (error + (string \<rightharpoonup> int64)) \<times> Storage" where
  "LoadStepIDMapping s workflowID = (case db_call s of
       (Some err, s') \<Rightarrow> (Inl (Errorf ''failed to load step ID mapping'' err), s')
     | (None, s') \<Rightarrow>
         (let m = foldl (\<lambda>m r. m(step_id r \<mapsto> sequence_num r)) Map.empty
                    (workflow_steps s' workflowID)
          in case db_call s' of
               (Some err, s'') \<Rightarrow> (Inl err, s'')
             | (None, s'') \<Rightarrow> (Inr m, s'')))"

definition select_workflow :: "Storage \<Rightarrow> string \<Rightarrow> workflow_row option" where
  "select_workflow s workflowID = find (\<lambda>r. wf_id r = workflowID) (workflows s)"

definition GetWorkflowStatus :: "Storage \<Rightarrow> string \<Rightarrow> (string \<times> error option) \<times> Storage" where
  "GetWorkflowStatus s workflowID = (case db_call s of
       (Some err, s') \<Rightarrow> (([], Some (Errorf ''failed to get workflow status'' err)), s')
     | (None, s') \<Rightarrow> (case select_workflow s' workflowID of
           None \<Rightarrow> (([], Some (New ''workflow not found'')), s')
         | Some r \<Rightarrow> ((wf_status r, None), s')))"

subsection \<open>Context and the Step primitive\<close>

text \<open>
  The fields of \<open>Context\<close> that hold data; the storage handle is the \<open>Storage\<close> value that
  is passed along, the mutex and the errgroup belong to the concurrent use, which is not
  modelled: calls of \<open>Step\<close> on one Context run one after the other.
\<close>

record Context =
  WorkflowID :: string
  sequenceNum :: int64
  completedSteps :: "string \<rightharpoonup> bytes"
  stepIDToSeq :: "string \<rightharpoonup> int64"

definition newContext :: "string \<Rightarrow> Storage \<Rightarrow> (error + Context) \<times> Storage" where
  "newContext workflowID s = (case LoadCompletedSteps s workflowID of
       (Inl err, s1) \<Rightarrow> (Inl (Errorf ''failed to load completed steps'' err), s1)
     | (Inr completed, s1) \<Rightarrow> (case LoadStepIDMapping s1 workflowID of
           (Inl err, s2) \<Rightarrow> (Inl (Errorf ''failed to load step ID mapping'' err), s2)
         | (Inr mapping, s2) \<Rightarrow> (case GetMaxSequenceNum s2 workflowID of
               ((maxSeq, Some err), s3) \<Rightarrow> (Inl (Errorf ''failed to get max sequence'' err), s3)
             | ((maxSeq, None), s3) \<Rightarrow>
                 (Inr \<lparr>WorkflowID = workflowID, sequenceNum = maxSeq,
                       completedSteps = completed, stepIDToSeq = mapping\<rparr>, s3))))"

text \<open>
  The result type \<open>T\<close> of a step enters through its JSON codec and its zero value:
  \<open>json.Marshal\<close> and \<open>json.Unmarshal\<close> at type \<open>T\<close> are parameters of the model.
  The Body \<open>fn\<close> acts on the caller's own state \<open>'u\<close> (the counters of the tests) and
  returns Go's pair of a result and an error.
\<close>

record 'a codec =
  Marshal :: "'a \<Rightarrow> error + bytes"
  Unmarshal :: "bytes \<Rightarrow> error + 'a"
  zero :: 'a

type_synonym ('a, 'u) body = "'u \<Rightarrow> ('a \<times> error option) \<times> 'u"
type_synonym ('a, 'u) step_result = "('a \<times> error option) \<times> Context \<times> Storage \<times> 'u"

text \<open>Part 1 of \<open>Step\<close>: reuse the sequence number of a known step ID, else take the next
  one (\<open>atomic.AddInt64\<close> wraps around) and record it.\<close>

definition Step_seq :: "Context \<Rightarrow> string \<Rightarrow> int64 \<times> Context" where
  "Step_seq ctx stepID = (case stepIDToSeq ctx stepID of
       Some seqNum \<Rightarrow> (seqNum, ctx)
     | None \<Rightarrow>
         (let seqNum = sequenceNum ctx + 1
          in (seqNum, ctx\<lparr>sequenceNum := seqNum,
                           stepIDToSeq := (stepIDToSeq ctx)(stepID \<mapsto> seqNum)\<rparr>)))"

text \<open>Parts 4 to 6: mark in progress, run the Body, save the error or the result.\<close>

definition Step_execute :: "'a codec \<Rightarrow> Context \<Rightarrow> Storage \<Rightarrow> 'u \<Rightarrow> string \<Rightarrow> int64
    \<Rightarrow> string \<Rightarrow> ('a, 'u) body \<Rightarrow> ('a, 'u) step_result" where
  "Step_execute cdc ctx s u stepID seqNum stepKey fn =
     (case MarkStepInProgress s (WorkflowID ctx) stepKey stepID seqNum of
        (Some err, s1) \<Rightarrow>
          ((zero cdc, Some (Errorf ''failed to mark step in progress'' err)), ctx, s1, u)
      | (None, s1) \<Rightarrow> (case fn u of
            ((result, Some err), u') \<Rightarrow>
              ((zero cdc, Some err), ctx,
               snd (SaveStepError s1 (WorkflowID ctx) stepKey (Error err)), u')
          | ((result, None), u') \<Rightarrow> (case Marshal cdc result of
                Inl err \<Rightarrow> ((zero cdc, Some (Errorf ''failed to marshal result'' err)), ctx, s1, u')
              | Inr out \<Rightarrow> (case SaveStep s1 (WorkflowID ctx) stepKey out of
                    (Some err, s2) \<Rightarrow>
                      ((zero cdc, Some (Errorf ''failed to save step'' err)), ctx, s2, u')
                  | (None, s2) \<Rightarrow>
                      ((result, None),
                       ctx\<lparr>completedSteps := (completedSteps ctx)(stepKey \<mapsto> out)\<rparr>,
                       s2, u')))))"

text \<open>Part 3: ask the database, and run the step when it holds no completed record.\<close>

definition Step_database :: "'a codec \<Rightarrow> Context \<Rightarrow> Storage \<Rightarrow> 'u \<Rightarrow> string \<Rightarrow> int64
    \<Rightarrow> string \<Rightarrow> ('a, 'u) body \<Rightarrow> ('a, 'u) step_result" where
  "Step_database cdc ctx s u stepID seqNum stepKey fn =
     (case GetStep s (WorkflowID ctx) stepKey of
        ((out, found, Some err), s1) \<Rightarrow>
          ((zero cdc, Some (Errorf ''failed to check step in database'' err)), ctx, s1, u)
      | ((out, found, None), s1) \<Rightarrow>
          if found then (case Unmarshal cdc out of
              Inl err \<Rightarrow>
                ((zero cdc, Some (Errorf ''failed to unmarshal database result'' err)), ctx, s1, u)
            | Inr result \<Rightarrow>
                ((result, None),
                 ctx\<lparr>completedSteps := (completedSteps ctx)(stepKey \<mapsto> out)\<rparr>, s1, u))
          else Step_execute cdc ctx s1 u stepID seqNum stepKey fn)"

text \<open>\<open>Step\<close>: parts 1 and 2 (the in-memory cache), then the rest.\<close>

definition Step :: "'a codec \<Rightarrow> Context \<Rightarrow> Storage \<Rightarrow> 'u \<Rightarrow> string \<Rightarrow> ('a, 'u) body
    \<Rightarrow> ('a, 'u) step_result" where
  "Step cdc ctx s u stepID fn =
     (let (seqNum, ctx1) = Step_seq ctx stepID;
          stepKey = generateStepKey stepID seqNum
      in case completedSteps ctx1 stepKey of
           Some cached \<Rightarrow> (case Unmarshal cdc cached of
               Inl err \<Rightarrow>
                 ((zero cdc, Some (Errorf ''failed to unmarshal cached result'' err)), ctx1, s, u)
             | Inr result \<Rightarrow> ((result, None), ctx1, s, u))
         | None \<Rightarrow> Step_database cdc ctx1 s u stepID seqNum stepKey fn)"

subsection \<open>Engine\<close>

text \<open>\<open>Execute\<close>: the workflow function receives the fresh Context and works on the
  storage and on the caller's state; the Context is dropped when it returns.\<close>

type_synonym 'u workflow = "Context \<Rightarrow> Storage \<Rightarrow> 'u \<Rightarrow> error option \<times> Storage \<times> 'u"

definition Execute :: "Storage \<Rightarrow> 'u \<Rightarrow> string \<Rightarrow> 'u workflow \<Rightarrow> error option \<times> Storage \<times> 'u" where
  "Execute s u workflowID workflowFn = (case CreateWorkflow s workflowID of
       (Some err, s1) \<Rightarrow> (Some (Errorf ''failed to create workflow'' err), s1, u)
     | (None, s1) \<Rightarrow> (case GetWorkflowStatus s1 workflowID of
           ((st, Some err), s2) \<Rightarrow> (Some (Errorf ''failed to get workflow status'' err), s2, u)
         | ((st, None), s2) \<Rightarrow>
             if st = ''completed'' then (None, s2, u)
             else (case newContext workflowID s2 of
                 (Inl err, s3) \<Rightarrow> (Some (Errorf ''failed to create context'' err), s3, u)
               | (Inr ctx, s3) \<Rightarrow> (case workflowFn ctx s3 u of
                     (Some err, s4, u') \<Rightarrow>
                       (Some (Errorf ''workflow execution failed'' err),
                        snd (UpdateWorkflowStatus s4 workflowID ''failed''), u')
                   | (None, s4, u') \<Rightarrow>
                       (case UpdateWorkflowStatus s4 workflowID ''completed'' of
                          (Some err, s5) \<Rightarrow>
                            (Some (Errorf ''failed to mark workflow as completed'' err), s5, u')
                        | (None, s5) \<Rightarrow> (None, s5, u'))))))"

text \<open>What \<open>newContext\<close> builds when the driver reports no failure (a name for the
  proofs; \<open>newContext_ok\<close> below is the link).\<close>

definition hydrate :: "Storage \<Rightarrow> string \<Rightarrow> Context" where
  "hydrate s w =
     \<lparr>WorkflowID = w,
      sequenceNum = (case sql_max (map sequence_num (workflow_steps s w)) of
                       None \<Rightarrow> 0 | Some m \<Rightarrow> m),
      completedSteps = foldl (\<lambda>m r. m(step_key r \<mapsto> scan_blob (output_col r))) Map.empty
         (filter (\<lambda>r. status r = ''completed'') (workflow_steps s w)),
      stepIDToSeq = foldl (\<lambda>m r. m(step_id r \<mapsto> sequence_num r)) Map.empty
         (workflow_steps s w)\<rparr>"

subsection \<open>A concrete run: two workflows in one database\<close>

text \<open>
  The inputs of the worked examples. The step is the first step of
  \<open>EmployeeOnboarding\<close>: ID \<open>create-user-record\<close>, result 12345 of an integer type.
  \<open>json_int64\<close> stands for the JSON codec at that type: the text of a number is its
  decimal numeral, and decoding accepts the numerals that encoding produces (all that
  the examples decode). As in the tests of the package, the Body counts its own
  invocations in the caller's state, and \<open>one_step_then_crash\<close> is the workflow of
  \<open>TestWorkflowResume\<close> that fails after its first step.
\<close>

definition json_int64 :: "int64 codec" where
  "json_int64 =
     \<lparr>Marshal = (\<lambda>v. Inr (FormatInt (sint v))),
      Unmarshal = (\<lambda>bs. if bs = FormatInt (ParseInt bs) \<and> - (2 ^ 63) \<le> ParseInt bs
                            \<and> ParseInt bs < 2 ^ 63
                         then Inr (word_of_int (ParseInt bs))
                         else Inl (New ''json: cannot unmarshal into Go value of type int64'')),
      zero = 0\<rparr>"

definition counted :: "int64 \<Rightarrow> (int64, nat) body" where
  "counted v = (\<lambda>n. ((v, None), Suc n))"

definition failing :: "string \<Rightarrow> (int64, nat) body" where
  "failing msg = (\<lambda>n. ((0, Some (New msg)), Suc n))"

definition one_step :: "nat workflow" where
  "one_step ctx s u =
     (case Step json_int64 ctx s u ''create-user-record'' (counted 12345) of
        ((r, Some err), ctx', s', u') \<Rightarrow> (Some err, s', u')
      | ((r, None), ctx', s', u') \<Rightarrow> (None, s', u'))"

definition one_step_then_crash :: "nat workflow" where
  "one_step_then_crash ctx s u =
     (case Step json_int64 ctx s u ''create-user-record'' (counted 12345) of
        ((r, Some err), ctx', s', u') \<Rightarrow> (Some err, s', u')
      | ((r, None), ctx', s', u') \<Rightarrow> (Some (New ''simulated crash''), s', u'))"

definition empty_db :: Storage where
  "empty_db = \<lparr>workflows = [], steps = [], driver = []\<rparr>"

definition row1 :: "string \<Rightarrow> step_row" where
  "row1 st = \<lparr>workflow_id = ''onboarding-employee-001'', step_id = ''create-user-record'',
      sequence_num = 1, step_key = ''create-user-record:1'', status = st,
      output_col = Some ''12345'', error_col = None\<rparr>"

definition db1 :: Storage where
  "db1 = \<lparr>workflows = [\<lparr>wf_id = ''onboarding-employee-001'', wf_status = ''completed''\<rparr>],
      steps = [row1 ''completed''], driver = []\<rparr>"

definition db2 :: Storage where
  "db2 = \<lparr>workflows = [\<lparr>wf_id = ''onboarding-employee-001'', wf_status = ''completed''\<rparr>,
                      \<lparr>wf_id = ''onboarding-employee-002'', wf_status = ''failed''\<rparr>],
      steps = [row1 ''in_progress''], driver = []\<rparr>"

definition db3 :: Storage where
  "db3 = \<lparr>workflows = [\<lparr>wf_id = ''onboarding-employee-001'', wf_status = ''completed''\<rparr>,
                      \<lparr>wf_id = ''onboarding-employee-002'', wf_status = ''completed''\<rparr>],
      steps = [row1 ''in_progress''], driver = []\<rparr>"

text \<open>Workflow 001 runs to completion; workflow 002 runs the same step and fails after
  it; workflow 002 is executed again. The caller's counter is reset before workflow 002
  starts, so at the end it counts the Body invocations of workflow 002.\<close>

definition two_workflows ::
    "(error option \<times> error option \<times> error option) \<times> Storage \<times> nat" where
  "two_workflows =
     (case Execute empty_db 0 ''onboarding-employee-001'' one_step of (e1, s1, u1) \<Rightarrow>
      case Execute s1 0 ''onboarding-employee-002'' one_step_then_crash of (e2, s2, u2) \<Rightarrow>
      case Execute s2 u2 ''onboarding-employee-002'' one_step of (e3, s3, u3) \<Rightarrow>
        ((e1, e2, e3), s3, u3))"

subsection \<open>Runs of Step calls and the invariants of the sequence numbers\<close>

text \<open>
  A run is what a workflow function does with its Context: one \<open>Step\<close> call after the
  other, whatever the earlier calls returned. \<open>run_steps\<close> performs the calls and
  collects the sequence number each call works with (the one part 1 of \<open>Step\<close> hands out).
\<close>

fun run_steps :: "'a codec \<Rightarrow> Context \<Rightarrow> Storage \<Rightarrow> 'u \<Rightarrow> (string \<times> ('a, 'u) body) list
    \<Rightarrow> int64 list \<times> Context \<times> Storage \<times> 'u" where
  "run_steps cdc ctx s u [] = ([], ctx, s, u)"
| "run_steps cdc ctx s u ((stepID, fn) # calls) =
     (case Step cdc ctx s u stepID fn of
        (res, ctx', s', u') \<Rightarrow>
          (case run_steps cdc ctx' s' u' calls of
             (seqs, final) \<Rightarrow> (fst (Step_seq ctx stepID) # seqs, final)))"

text \<open>The columns of a step row that no statement updates.\<close>

definition ident :: "step_row \<Rightarrow> string \<times> string \<times> int64 \<times> string" where
  "ident r = (workflow_id r, step_id r, sequence_num r, step_key r)"

text \<open>
  \<open>seq_functional\<close>: the records of the workflow give each step ID one sequence number.
  \<open>agrees\<close>: the Context knows the sequence number of every recorded step of its
  workflow. \<open>seq_bounded\<close>: the counter of the Context is at least every sequence number
  recorded for its workflow and every one in its own map.
  \<open>keys_wellformed\<close>: every record carries the key generated from its own step ID and
  sequence number. The empty table satisfies all of them.
\<close>

definition seq_functional :: "Storage \<Rightarrow> string \<Rightarrow> bool" where
  "seq_functional s w \<longleftrightarrow>
     (\<forall>r\<in>set (workflow_steps s w). \<forall>r'\<in>set (workflow_steps s w).
        step_id r = step_id r' \<longrightarrow> sequence_num r = sequence_num r')"

definition agrees :: "Context \<Rightarrow> Storage \<Rightarrow> bool" where
  "agrees ctx s \<longleftrightarrow>
     (\<forall>r\<in>set (workflow_steps s (WorkflowID ctx)).
        stepIDToSeq ctx (step_id r) = Some (sequence_num r))"

definition seq_bounded :: "Context \<Rightarrow> Storage \<Rightarrow> bool" where
  "seq_bounded ctx s \<longleftrightarrow>
     (\<forall>r\<in>set (workflow_steps s (WorkflowID ctx)).
        sint (sequence_num r) \<le> sint (sequenceNum ctx))
     \<and> (\<forall>stepID n. stepIDToSeq ctx stepID = Some n \<longrightarrow> sint n \<le> sint (sequenceNum ctx))"

definition keys_wellformed :: "Storage \<Rightarrow> bool" where
  "keys_wellformed s \<longleftrightarrow>
     (\<forall>r\<in>set (steps s). step_key r = generateStepKey (step_id r) (sequence_num r))"

text \<open>The records after a call: the old ones, with the same identifying columns and in
  the same order, and at most one new record at the end, the marker of this step.\<close>

definition grown :: "Storage \<Rightarrow> Storage \<Rightarrow> string \<times> string \<times> int64 \<times> string \<Rightarrow> bool" where
  "grown s s' new \<longleftrightarrow>
     map ident (steps s') = map ident (steps s) \<or> map ident (steps s') = map ident (steps s) @ [new]"

text \<open>Two more storages of the worked examples: one whose only record carries the
  largest \<open>int64\<close> as its sequence number, and the one a failed first step leaves.\<close>

definition db_wrap :: Storage where
  "db_wrap = \<lparr>workflows = [\<lparr>wf_id = ''w'', wf_status = ''running''\<rparr>],
      steps = [\<lparr>workflow_id = ''w'', step_id = ''a'', sequence_num = 9223372036854775807,
                step_key = ''a:9223372036854775807'', status = ''completed'',
                output_col = Some ''1'', error_col = None\<rparr>],
      driver = []\<rparr>"

definition db_failed :: Storage where
  "db_failed = \<lparr>workflows = [],
      steps = [\<lparr>workflow_id = ''w'', step_id = ''a'', sequence_num = 1, step_key = ''a:1'',
                status = ''failed'', output_col = None, error_col = Some ''boom''\<rparr>],
      driver = []\<rparr>"

subsection \<open>The first step of a second workflow\<close>

text \<open>
  Workflow 002 starts in the database that workflow 001 has completed (\<open>db1\<close>);
  \<open>db1_started\<close> is that database once \<open>Execute\<close> has created workflow 002.
  \<open>one_failing_step\<close> is \<open>one_step\<close> with a Body that returns an error; \<open>two_steps\<close> are
  the first and the last step of \<open>EmployeeOnboarding\<close>, both with results of the integer
  type. \<open>db_after_two_steps\<close> is the database after an \<open>Execute\<close> of workflow 002 that
  makes the two steps and fails, and \<open>db_after_replay\<close> the database after the next
  \<open>Execute\<close> of workflow 002, which makes the same two steps.
\<close>

definition one_failing_step :: "nat workflow" where
  "one_failing_step ctx s u =
     (case Step json_int64 ctx s u ''create-user-record'' (failing ''boom'') of
        ((r, Some err), ctx', s', u') \<Rightarrow> (Some err, s', u')
      | ((r, None), ctx', s', u') \<Rightarrow> (None, s', u'))"

definition two_steps :: "(string \<times> (int64, nat) body) list" where
  "two_steps = [(''create-user-record'', counted 12345), (''send-welcome-email'', counted 1)]"

definition row2 :: "string \<Rightarrow> int64 \<Rightarrow> string \<Rightarrow> string \<Rightarrow> step_row" where
  "row2 stepID n key out = \<lparr>workflow_id = ''onboarding-employee-002'', step_id = stepID,
      sequence_num = n, step_key = key, status = ''completed'',
      output_col = Some out, error_col = None\<rparr>"

definition db1_started :: Storage where
  "db1_started = db1\<lparr>workflows := workflows db1 @
     [\<lparr>wf_id = ''onboarding-employee-002'', wf_status = ''running''\<rparr>]\<rparr>"

definition db_after_two_steps :: Storage where
  "db_after_two_steps = db2\<lparr>steps :=
     [row1 ''in_progress'', row2 ''send-welcome-email'' 2 ''send-welcome-email:2'' ''1'']\<rparr>"

definition db_after_replay :: Storage where
  "db_after_replay = db3\<lparr>steps :=
     [row1 ''in_progress'', row2 ''send-welcome-email'' 2 ''send-welcome-email:2'' ''1'',
      row2 ''create-user-record'' 3 ''create-user-record:3'' ''12345'']\<rparr>"

subsection \<open>Histories of the engine\<close>

text \<open>
  \<open>workflow_of\<close> is a workflow function that makes the given \<open>Step\<close> calls one after the
  other and returns \<open>result\<close>; every execution of a workflow function that calls \<open>Step\<close>
  sequentially is the execution of such a list, the list of the calls it made. A
  history is a list of \<open>Execute\<close> calls on one database, each with its workflow ID, codec,
  \<open>Step\<close> calls and result; \<open>run_history\<close> performs them, \<open>history_calls\<close> counts the \<open>Step\<close>
  calls. The driver answers of the whole history are the script in the first storage.
  \<open>seqs_below s n\<close>: no record carries a sequence number above \<open>n\<close>.
\<close>

definition workflow_of :: "'a codec \<Rightarrow> (string \<times> ('a, 'u) body) list \<Rightarrow> error option
    \<Rightarrow> 'u workflow" where
  "workflow_of cdc calls result ctx s u =
     (case run_steps cdc ctx s u calls of (seqs, ctx', s', u') \<Rightarrow> (result, s', u'))"





subsection \<open>The JSON codec at an interface type\<close>






section \<open>The step key generator\<close>

declare decimal.simps [simp del]

lemma digit_cases:
  assumes "d < (10 :: nat)"
  obtains "d = 0" | "d = 1" | "d = 2" | "d = 3" | "d = 4"
    | "d = 5" | "d = 6" | "d = 7" | "d = 8" | "d = 9"
  using assms by atomize_elim arith

lemma digit_val_digit: "d < 10 \<Longrightarrow> digit_val (digit d) = d"
  by (erule digit_cases) (simp_all add: digit_val_def digit_def)

lemma digit_not_colon: "d < 10 \<Longrightarrow> digit d \<noteq> CHR '':''"
  by (erule digit_cases) (simp_all add: digit_def)

lemma digit_not_minus: "d < 10 \<Longrightarrow> digit d \<noteq> CHR ''-''"
  by (erule digit_cases) (simp_all add: digit_def)

lemma undecimal_snoc: "undecimal (cs @ [c]) = 10 * undecimal cs + digit_val c"
  by (simp add: undecimal_def)

lemma undecimal_decimal: "undecimal (decimal n) = n"
proof (induction n rule: decimal.induct)
  case (1 n)
  show ?case
  proof (cases "n < 10")
    case True
    then show ?thesis
      by (simp add: decimal.simps [of n] undecimal_def digit_val_digit)
  next
    case False
    with 1 have "undecimal (decimal (n div 10)) = n div 10" by simp
    with False show ?thesis
      by (simp add: decimal.simps [of n] undecimal_snoc digit_val_digit)
  qed
qed

lemma decimal_chars: "c \<in> set (decimal n) \<Longrightarrow> c \<noteq> CHR '':'' \<and> c \<noteq> CHR ''-''"
proof (induction n rule: decimal.induct)
  case (1 n)
  show ?case
  proof (cases "n < 10")
    case True
    with 1(2) show ?thesis
      by (auto simp: decimal.simps [of n] digit_not_colon digit_not_minus)
  next
    case False
    with 1 show ?thesis
      by (auto simp: decimal.simps [of n] digit_not_colon digit_not_minus)
  qed
qed

lemma decimal_not_Nil: "decimal n \<noteq> []"
  by (simp add: decimal.simps [of n])

lemma hd_decimal_not_minus: "hd (decimal n) \<noteq> CHR ''-''"
  using decimal_chars [of "hd (decimal n)" n] decimal_not_Nil [of n] by auto

lemma ParseInt_FormatInt: "ParseInt (FormatInt i) = i"
proof (cases "i < 0")
  case True
  then show ?thesis
    by (simp add: ParseInt_def FormatInt_def undecimal_decimal)
next
  case False
  obtain c ds where d: "decimal (nat i) = c # ds"
    using decimal_not_Nil [of "nat i"] by (cases "decimal (nat i)") auto
  with hd_decimal_not_minus [of "nat i"] have "c \<noteq> CHR ''-''" by simp
  with False d undecimal_decimal [of "nat i"] show ?thesis
    by (simp add: ParseInt_def FormatInt_def)
qed

lemma FormatInt_no_colon: "CHR '':'' \<notin> set (FormatInt i)"
  using decimal_chars by (auto simp: FormatInt_def)

lemma split_at_last_sep:
  assumes "xs @ c # ys = xs' @ c # ys'" and "c \<notin> set ys" and "c \<notin> set ys'"
  shows "xs = xs' \<and> ys = ys'"
proof -
  have a: "takeWhile (\<lambda>x. x \<noteq> c) (rev (xs @ c # ys)) = rev ys"
    using assms(2) by (simp add: takeWhile_append)
  have b: "takeWhile (\<lambda>x. x \<noteq> c) (rev (xs' @ c # ys')) = rev ys'"
    using assms(3) by (simp add: takeWhile_append)
  from a b assms(1) have "rev ys = rev ys'" by simp
  then have "ys = ys'" by simp
  with assms(1) show ?thesis by simp
qed

lemma generateStepKey_eq_iff:
  "generateStepKey stepID1 seq1 = generateStepKey stepID2 seq2
     \<longleftrightarrow> stepID1 = stepID2 \<and> seq1 = seq2"
proof
  assume "generateStepKey stepID1 seq1 = generateStepKey stepID2 seq2"
  then have e: "stepID1 @ CHR '':'' # FormatInt (sint seq1)
      = stepID2 @ CHR '':'' # FormatInt (sint seq2)"
    by (simp add: generateStepKey_def)
  have ids: "stepID1 = stepID2 \<and> FormatInt (sint seq1) = FormatInt (sint seq2)"
    by (rule split_at_last_sep [OF e FormatInt_no_colon FormatInt_no_colon])
  then have "ParseInt (FormatInt (sint seq1)) = ParseInt (FormatInt (sint seq2))"
    by simp
  then have "sint seq1 = sint seq2"
    by (simp only: ParseInt_FormatInt)
  then have "seq1 = seq2" by (rule signed_word_eqI)
  with ids show "stepID1 = stepID2 \<and> seq1 = seq2" by simp
next
  assume "stepID1 = stepID2 \<and> seq1 = seq2"
  then show "generateStepKey stepID1 seq1 = generateStepKey stepID2 seq2" by simp
qed

text \<open>
  C3. The step key serialization is injective: equal keys come only from equal
  (StepID, SequenceNum) pairs, also when a StepID contains the separator \<open>:\<close>. The
  decimal rendering of the sequence number holds no colon, so the last colon of a key is
  always the separator.
\<close>

theorem generateStepKey_injective:
  "generateStepKey stepID1 seq1 = generateStepKey stepID2 seq2
     \<longrightarrow> stepID1 = stepID2 \<and> seq1 = seq2"
  by (simp add: generateStepKey_eq_iff)

theorem generateStepKey_injective_witness:
  "generateStepKey ''a:1'' 2 = generateStepKey ''a:1'' 2 \<and> ''a:1'' = ''a:1'' \<and> (2 :: int64) = 2"
  using generateStepKey_injective [of "''a:1''" 2 "''a:1''" 2] by simp

section \<open>Storage: the driver, the retry loop and the statements\<close>

lemma db_call_ok: "driver s = [] \<Longrightarrow> db_call s = (None, s)"
  by (simp add: db_call_def)

lemma db_Exec_ok: "driver s = [] \<Longrightarrow> db_Exec stmt s = (None, stmt s)"
  by (simp add: db_Exec_def db_call_ok)

lemma retryLoop_ok: "fn s = (None, s') \<Longrightarrow> retryLoop n fn s = (None, s')"
  by (cases n) simp_all

lemma retryOnBusy_ok: "fn s = (None, s') \<Longrightarrow> retryOnBusy fn s = (None, s')"
  by (simp add: retryOnBusy_def retryLoop_ok)

lemma db_Exec_cases:
  "(\<exists>d. db_Exec stmt s = (None, stmt (s\<lparr>driver := d\<rparr>)))
   \<or> (\<exists>d e. db_Exec stmt s = (Some e, s\<lparr>driver := d\<rparr>))"
proof (cases "driver s")
  case Nil
  then have e: "s\<lparr>driver := []\<rparr> = s" by (cases s) simp
  from Nil have "db_Exec stmt s = (None, stmt s)"
    by (simp add: db_Exec_def db_call_def)
  then have "db_Exec stmt s = (None, stmt (s\<lparr>driver := []\<rparr>))"
    by (simp only: e)
  then show ?thesis by blast
next
  case (Cons a ds)
  then show ?thesis
    by (cases a) (auto simp: db_Exec_def db_call_def)
qed

lemma retryLoop_cases:
  "(\<exists>d. retryLoop n (db_Exec stmt) s = (None, stmt (s\<lparr>driver := d\<rparr>)))
   \<or> (\<exists>d e. retryLoop n (db_Exec stmt) s = (Some e, s\<lparr>driver := d\<rparr>))"
proof (induction n arbitrary: s)
  case 0
  from db_Exec_cases [of stmt s] show ?case
    by (auto simp: split: if_splits)
next
  case (Suc n)
  from db_Exec_cases [of stmt s] show ?case
  proof (elim disjE exE)
    fix d assume "db_Exec stmt s = (None, stmt (s\<lparr>driver := d\<rparr>))"
    then show ?thesis by auto
  next
    fix d e assume a: "db_Exec stmt s = (Some e, s\<lparr>driver := d\<rparr>)"
    show ?thesis
    proof (cases "isSQLiteBusy e")
      case False
      with a show ?thesis by auto
    next
      case True
      with a have "retryLoop (Suc n) (db_Exec stmt) s = retryLoop n (db_Exec stmt) (s\<lparr>driver := d\<rparr>)"
        by simp
      with Suc.IH [of "s\<lparr>driver := d\<rparr>"] show ?thesis by auto
    qed
  qed
qed

lemma retryOnBusy_cases:
  "(\<exists>d. retryOnBusy (db_Exec stmt) s = (None, stmt (s\<lparr>driver := d\<rparr>)))
   \<or> (\<exists>d e. retryOnBusy (db_Exec stmt) s = (Some e, s\<lparr>driver := d\<rparr>))"
  unfolding retryOnBusy_def by (rule retryLoop_cases)

lemma db_call_cases: "\<exists>d. db_call s = (None, s\<lparr>driver := d\<rparr>) \<or> (\<exists>e. db_call s = (Some e, s\<lparr>driver := d\<rparr>))"
proof (cases "driver s")
  case Nil
  then have e: "s\<lparr>driver := []\<rparr> = s" by (cases s) simp
  from Nil have "db_call s = (None, s)" by (simp add: db_call_def)
  then have "db_call s = (None, s\<lparr>driver := []\<rparr>)" by (simp only: e)
  then show ?thesis by blast
next
  case (Cons a ds)
  then show ?thesis by (cases a) (auto simp: db_call_def)
qed

lemma update_step_completed_no_row:
  assumes "\<forall>r\<in>set (steps s). \<not> (workflow_id r = workflowID \<and> step_key r = stepKey)"
  shows "update_step_completed out workflowID stepKey s = s"
proof -
  have "map (\<lambda>r. if workflow_id r = workflowID \<and> step_key r = stepKey
          then r\<lparr>status := ''completed'', output_col := Some out\<rparr> else r) (steps s) = steps s"
    using assms by (intro map_idI) auto
  then show ?thesis by (simp add: update_step_completed_def)
qed

lemma update_step_failed_no_row:
  assumes "\<forall>r\<in>set (steps s). \<not> (workflow_id r = workflowID \<and> step_key r = stepKey)"
  shows "update_step_failed errMsg workflowID stepKey s = s"
proof -
  have "map (\<lambda>r. if workflow_id r = workflowID \<and> step_key r = stepKey
          then r\<lparr>status := ''failed'', error_col := Some errMsg\<rparr> else r) (steps s) = steps s"
    using assms by (intro map_idI) auto
  then show ?thesis by (simp add: update_step_failed_def)
qed

lemma select_step_None:
  "select_step s workflowID stepKey = None
     \<longleftrightarrow> (\<forall>r\<in>set (steps s). \<not> (workflow_id r = workflowID \<and> step_key r = stepKey))"
  by (auto simp: select_step_def find_None_iff)

lemma GetStep_ok_None:
  "driver s = [] \<Longrightarrow> select_step s workflowID stepKey = None
     \<Longrightarrow> GetStep s workflowID stepKey = (([], False, None), s)"
  by (simp add: GetStep_def QueryRow_step_def db_call_ok)

lemma driver_stmts [simp]:
  "driver (insert_or_ignore_workflow w st s) = driver s"
  "driver (update_workflow_status st w s) = driver s"
  "driver (upsert_step_in_progress w k i n s) = driver s"
  "driver (update_step_completed out w k s) = driver s"
  "driver (update_step_failed msg w k s) = driver s"
  by (simp_all add: insert_or_ignore_workflow_def update_workflow_status_def
      upsert_step_in_progress_def update_step_completed_def update_step_failed_def)

lemma CreateWorkflow_ok:
  "driver s = [] \<Longrightarrow> CreateWorkflow s w = (None, insert_or_ignore_workflow w ''running'' s)"
  by (simp add: CreateWorkflow_def retryOnBusy_ok db_Exec_ok)

lemma UpdateWorkflowStatus_ok:
  "driver s = [] \<Longrightarrow> UpdateWorkflowStatus s w st = (None, update_workflow_status st w s)"
  by (simp add: UpdateWorkflowStatus_def retryOnBusy_ok db_Exec_ok)

lemma MarkStepInProgress_ok:
  "driver s = [] \<Longrightarrow> MarkStepInProgress s w k i n = (None, upsert_step_in_progress w k i n s)"
  by (simp add: MarkStepInProgress_def retryOnBusy_ok db_Exec_ok)

lemma SaveStep_ok:
  "driver s = [] \<Longrightarrow> SaveStep s w k out = (None, update_step_completed out w k s)"
  by (simp add: SaveStep_def retryOnBusy_ok db_Exec_ok)

lemma SaveStepError_ok:
  "driver s = [] \<Longrightarrow> SaveStepError s w k msg = (None, update_step_failed msg w k s)"
  by (simp add: SaveStepError_def retryOnBusy_ok db_Exec_ok)

lemma GetStep_ok:
  "driver s = [] \<Longrightarrow> GetStep s w k =
     ((case select_step s w k of
         None \<Rightarrow> ([], False, None)
       | Some r \<Rightarrow> if status r \<noteq> ''completed'' then ([], False, None)
                  else (scan_blob (output_col r), True, None)), s)"
  by (simp add: GetStep_def QueryRow_step_def db_call_ok split: option.splits)

lemma GetWorkflowStatus_ok:
  "driver s = [] \<Longrightarrow> GetWorkflowStatus s w =
     ((case select_workflow s w of
         None \<Rightarrow> ([], Some (New ''workflow not found''))
       | Some r \<Rightarrow> (wf_status r, None)), s)"
  by (simp add: GetWorkflowStatus_def db_call_ok split: option.splits)

lemma newContext_ok:
  "driver s = [] \<Longrightarrow> newContext w s = (Inr (hydrate s w), s)"
  by (simp add: newContext_def LoadCompletedSteps_def LoadStepIDMapping_def GetMaxSequenceNum_def
      db_call_ok hydrate_def split: option.splits)

lemmas ok_simps = CreateWorkflow_ok UpdateWorkflowStatus_ok MarkStepInProgress_ok SaveStep_ok
  SaveStepError_ok GetStep_ok GetWorkflowStatus_ok newContext_ok

lemmas table_defs = insert_or_ignore_workflow_def update_workflow_status_def
  upsert_step_in_progress_def update_step_completed_def update_step_failed_def
  select_step_def select_workflow_def workflow_steps_def sql_max_def scan_blob_def hydrate_def

lemma key1: "generateStepKey ''create-user-record'' 1 = ''create-user-record:1''"
  by (simp add: generateStepKey_def FormatInt_def decimal.simps digit_def)

lemma parse12345: "ParseInt ''12345'' = 12345"
  by (simp add: ParseInt_def undecimal_def digit_val_def)

lemma fmt12345: "FormatInt 12345 = ''12345''"
  by (simp add: FormatInt_def decimal.simps digit_def)

lemma find_unique:
  assumes "distinct (map f xs)" and "r \<in> set xs" and "P r" and "\<And>x. P x \<Longrightarrow> f x = f r"
  shows "find P xs = Some r"
  using assms
proof (induction xs)
  case Nil
  then show ?case by simp
next
  case (Cons x xs)
  show ?case
  proof (cases "P x")
    case True
    then have "f x = f r" by (rule Cons.prems(4))
    with Cons.prems(1,2) have "x = r" by (auto simp: image_iff)
    with True show ?thesis by simp
  next
    case False
    with Cons.prems(2,3) have m: "r \<in> set xs" by auto
    from Cons.prems(1) have d: "distinct (map f xs)" by simp
    have "find P xs = Some r"
      by (rule Cons.IH [OF d m Cons.prems(3) Cons.prems(4)])
    with False show ?thesis by simp
  qed
qed

lemma select_step_unique:
  assumes "distinct (map step_key (steps s))" and "r \<in> set (steps s)"
    and "workflow_id r = w" and "step_key r = k"
  shows "select_step s w k = Some r"
  unfolding select_step_def
  using assms by (intro find_unique [where f = step_key]) auto

lemma select_step_Some:
  "select_step s w k = Some r \<Longrightarrow> r \<in> set (steps s) \<and> workflow_id r = w \<and> step_key r = k"
  by (auto simp: select_step_def find_Some_iff)

lemma GetStep_not_completed:
  assumes "driver s = []"
    and "\<forall>r\<in>set (steps s). workflow_id r = w \<and> step_key r = k \<longrightarrow> status r \<noteq> ''completed''"
  shows "GetStep s w k = (([], False, None), s)"
proof (cases "select_step s w k")
  case None
  with assms(1) show ?thesis by (simp add: GetStep_ok)
next
  case (Some r)
  with select_step_Some [OF Some] assms(2) have "status r \<noteq> ''completed''" by blast
  with Some assms(1) show ?thesis by (simp add: GetStep_ok)
qed

text \<open>
  C10. \<open>SaveStep\<close> and \<open>SaveStepError\<close> are plain \<open>UPDATE\<close>s: when the workflow has no
  step record with the given step key, both leave the two tables as they are whatever the
  driver answers (only the driver's pending answers are consumed), and with a driver that
  reports no failure both return no error and the whole storage is unchanged; \<open>GetStep\<close>
  still reports the step as not found afterwards. A completion is therefore recorded only
  for a key whose row was inserted before.
\<close>

theorem SaveStep_only_updates:
  assumes "\<forall>r\<in>set (steps s). \<not> (workflow_id r = workflowID \<and> step_key r = stepKey)"
  shows "(\<exists>d err. SaveStep s workflowID stepKey out = (err, s\<lparr>driver := d\<rparr>))
       \<and> (\<exists>d err. SaveStepError s workflowID stepKey errMsg = (err, s\<lparr>driver := d\<rparr>))
       \<and> (driver s = [] \<longrightarrow>
            SaveStep s workflowID stepKey out = (None, s)
          \<and> SaveStepError s workflowID stepKey errMsg = (None, s)
          \<and> GetStep (snd (SaveStep s workflowID stepKey out)) workflowID stepKey
              = (([], False, None), s))"
proof (intro conjI impI)
  have n: "\<And>d. update_step_completed out workflowID stepKey (s\<lparr>driver := d\<rparr>) = s\<lparr>driver := d\<rparr>"
    using assms by (intro update_step_completed_no_row) simp
  from retryOnBusy_cases [of "update_step_completed out workflowID stepKey" s]
  show "\<exists>d err. SaveStep s workflowID stepKey out = (err, s\<lparr>driver := d\<rparr>)"
    unfolding SaveStep_def n by blast
  have m: "\<And>d. update_step_failed errMsg workflowID stepKey (s\<lparr>driver := d\<rparr>) = s\<lparr>driver := d\<rparr>"
    using assms by (intro update_step_failed_no_row) simp
  from retryOnBusy_cases [of "update_step_failed errMsg workflowID stepKey" s]
  show "\<exists>d err. SaveStepError s workflowID stepKey errMsg = (err, s\<lparr>driver := d\<rparr>)"
    unfolding SaveStepError_def m by blast
next
  assume d: "driver s = []"
  show a: "SaveStep s workflowID stepKey out = (None, s)"
    using d assms
    by (simp add: SaveStep_def retryOnBusy_ok db_Exec_ok update_step_completed_no_row)
  show "SaveStepError s workflowID stepKey errMsg = (None, s)"
    using d assms
    by (simp add: SaveStepError_def retryOnBusy_ok db_Exec_ok update_step_failed_no_row)
  show "GetStep (snd (SaveStep s workflowID stepKey out)) workflowID stepKey = (([], False, None), s)"
    using d assms by (simp add: a GetStep_ok_None select_step_None)
qed

theorem SaveStep_only_updates_witness:
  "SaveStep db2 ''onboarding-employee-002'' ''create-user-record:1'' ''12345'' = (None, db2)
   \<and> SaveStepError db2 ''onboarding-employee-002'' ''create-user-record:1'' ''boom'' = (None, db2)
   \<and> GetStep db2 ''onboarding-employee-002'' ''create-user-record:1'' = (([], False, None), db2)"
proof -
  have h: "\<forall>r\<in>set (steps db2). \<not> (workflow_id r = ''onboarding-employee-002''
      \<and> step_key r = ''create-user-record:1'')"
    by (simp add: db2_def row1_def)
  have d: "driver db2 = []" by (simp add: db2_def)
  from SaveStep_only_updates [OF h, of "''12345''" "''boom''"] d show ?thesis by auto
qed

text \<open>The other direction: once the marker row of the workflow exists, \<open>SaveStep\<close>
  records the completion and \<open>GetStep\<close> returns the output.\<close>

lemma SaveStep_after_marker:
  "GetStep (snd (SaveStep (snd (MarkStepInProgress empty_db ''w'' ''a:1'' ''a'' 1)) ''w'' ''a:1'' ''42''))
      ''w'' ''a:1'' = ((''42'', True, None),
         \<lparr>workflows = [],
          steps = [\<lparr>workflow_id = ''w'', step_id = ''a'', sequence_num = 1, step_key = ''a:1'',
                    status = ''completed'', output_col = Some ''42'', error_col = None\<rparr>],
          driver = []\<rparr>)"
  by (simp add: ok_simps table_defs empty_db_def)

section \<open>The Step primitive\<close>

lemma completedSteps_Step_seq: "completedSteps (snd (Step_seq ctx stepID)) = completedSteps ctx"
  by (simp add: Step_seq_def Let_def split: option.splits)

lemma Step_execute_ok:
  assumes "driver s = []"
  shows "Step_execute cdc ctx s u stepID seqNum stepKey fn =
     (case fn u of
        ((result, Some err), u') \<Rightarrow>
          ((zero cdc, Some err), ctx,
           update_step_failed (Error err) (WorkflowID ctx) stepKey
             (upsert_step_in_progress (WorkflowID ctx) stepKey stepID seqNum s), u')
      | ((result, None), u') \<Rightarrow> (case Marshal cdc result of
            Inl err \<Rightarrow> ((zero cdc, Some (Errorf ''failed to marshal result'' err)), ctx,
                        upsert_step_in_progress (WorkflowID ctx) stepKey stepID seqNum s, u')
          | Inr out \<Rightarrow> ((result, None),
                        ctx\<lparr>completedSteps := (completedSteps ctx)(stepKey \<mapsto> out)\<rparr>,
                        update_step_completed out (WorkflowID ctx) stepKey
                          (upsert_step_in_progress (WorkflowID ctx) stepKey stepID seqNum s), u')))"
proof -
  obtain result e u' where f: "fn u = ((result, e), u')"
    by (metis surj_pair)
  have m: "MarkStepInProgress s (WorkflowID ctx) stepKey stepID seqNum
      = (None, upsert_step_in_progress (WorkflowID ctx) stepKey stepID seqNum s)"
    using assms by (rule MarkStepInProgress_ok)
  have d: "driver (upsert_step_in_progress (WorkflowID ctx) stepKey stepID seqNum s) = []"
    using assms by simp
  show ?thesis
  proof (cases e)
    case (Some err)
    with f m d show ?thesis
      by (simp add: Step_execute_def SaveStepError_ok)
  next
    case None
    show ?thesis
    proof (cases "Marshal cdc result")
      case (Inl err)
      with f m None show ?thesis by (simp add: Step_execute_def)
    next
      case (Inr out)
      with f m d None show ?thesis by (simp add: Step_execute_def SaveStep_ok)
    qed
  qed
qed

lemma WorkflowID_Step_seq [simp]: "WorkflowID (snd (Step_seq ctx stepID)) = WorkflowID ctx"
  by (simp add: Step_seq_def Let_def split: option.splits)

lemma Step_runs_body:
  assumes "driver s = []"
    and "completedSteps ctx (generateStepKey stepID (fst (Step_seq ctx stepID))) = None"
    and "\<forall>r\<in>set (steps s). workflow_id r = WorkflowID ctx
           \<and> step_key r = generateStepKey stepID (fst (Step_seq ctx stepID))
           \<longrightarrow> status r \<noteq> ''completed''"
  shows "Step cdc ctx s u stepID fn =
     Step_execute cdc (snd (Step_seq ctx stepID)) s u stepID (fst (Step_seq ctx stepID))
       (generateStepKey stepID (fst (Step_seq ctx stepID))) fn"
proof -
  obtain seqNum ctx1 where q: "Step_seq ctx stepID = (seqNum, ctx1)"
    by (cases "Step_seq ctx stepID")
  from q have w: "WorkflowID ctx1 = WorkflowID ctx"
    using WorkflowID_Step_seq [of ctx stepID] by simp
  from q assms(2) completedSteps_Step_seq [of ctx stepID]
  have c: "completedSteps ctx1 (generateStepKey stepID seqNum) = None" by simp
  from q assms(3) w have
    "\<forall>r\<in>set (steps s). workflow_id r = WorkflowID ctx1 \<and> step_key r = generateStepKey stepID seqNum
        \<longrightarrow> status r \<noteq> ''completed''" by simp
  from GetStep_not_completed [OF assms(1) this]
  have g: "GetStep s (WorkflowID ctx1) (generateStepKey stepID seqNum) = (([], False, None), s)" .
  show ?thesis
    by (simp add: Step_def q c Step_database_def g)
qed

lemma update_step_failed_rows:
  assumes "r \<in> set (steps (update_step_failed msg w k s))"
    and "workflow_id r = w" and "step_key r = k"
  shows "status r = ''failed'' \<and> error_col r = Some msg"
proof -
  from assms(1) obtain r0 where r0: "r0 \<in> set (steps s)"
    and r: "r = (if workflow_id r0 = w \<and> step_key r0 = k
                 then r0\<lparr>status := ''failed'', error_col := Some msg\<rparr> else r0)"
    by (auto simp: update_step_failed_def)
  show ?thesis
  proof (cases "workflow_id r0 = w \<and> step_key r0 = k")
    case True
    with r show ?thesis by simp
  next
    case False
    with r assms(2,3) show ?thesis by simp
  qed
qed

lemma upsert_step_in_progress_row:
  assumes "\<forall>r\<in>set (steps s). step_key r = k \<longrightarrow> workflow_id r = w"
  shows "\<exists>r\<in>set (steps (upsert_step_in_progress w k i n s)). workflow_id r = w \<and> step_key r = k"
proof (cases "\<exists>r\<in>set (steps s). step_key r = k")
  case True
  then obtain r where r: "r \<in> set (steps s)" "step_key r = k" by blast
  with assms have "workflow_id r = w" by blast
  with r True have "r\<lparr>status := ''in_progress''\<rparr> \<in> set (steps (upsert_step_in_progress w k i n s))
      \<and> workflow_id (r\<lparr>status := ''in_progress''\<rparr>) = w
      \<and> step_key (r\<lparr>status := ''in_progress''\<rparr>) = k"
    by (force simp: upsert_step_in_progress_def image_iff)
  then show ?thesis by blast
next
  case False
  then show ?thesis by (simp add: upsert_step_in_progress_def)
qed

lemma update_step_failed_row:
  assumes "\<exists>r\<in>set (steps s). workflow_id r = w \<and> step_key r = k"
  shows "\<exists>r\<in>set (steps (update_step_failed msg w k s)). workflow_id r = w \<and> step_key r = k
           \<and> status r = ''failed'' \<and> error_col r = Some msg"
proof -
  from assms obtain r where r: "r \<in> set (steps s)" "workflow_id r = w" "step_key r = k"
    by blast
  then have m: "r\<lparr>status := ''failed'', error_col := Some msg\<rparr>
      \<in> set (steps (update_step_failed msg w k s))"
    by (force simp: update_step_failed_def image_iff)
  from r have "workflow_id (r\<lparr>status := ''failed'', error_col := Some msg\<rparr>) = w
      \<and> step_key (r\<lparr>status := ''failed'', error_col := Some msg\<rparr>) = k
      \<and> status (r\<lparr>status := ''failed'', error_col := Some msg\<rparr>) = ''failed''
      \<and> error_col (r\<lparr>status := ''failed'', error_col := Some msg\<rparr>) = Some msg"
    by simp
  with m show ?thesis by (rule bexI [rotated])
qed

text \<open>
  A failing Body, seen from the statements that \<open>Step\<close> issues: when the step is not
  cached, the workflow has no completed record under its key, the driver reports no
  failure and the Body returns the error \<open>err\<close>, then \<open>Step\<close> returns the zero value
  together with \<open>err\<close> itself (not wrapped) and the caller's state is the one the Body
  left. Whether the failure is recorded depends on who holds the step key: a record of
  the workflow under the key is \<open>failed\<close> with error text \<open>err.Error()\<close> if there is one,
  and there is one when no record of another workflow holds the key. The section on two
  workflows evaluates the other case.
\<close>

lemma Step_body_error_own_key:
  assumes "driver s = []"
    and "key = generateStepKey stepID (fst (Step_seq ctx stepID))"
    and "completedSteps ctx key = None"
    and "\<forall>r\<in>set (steps s). workflow_id r = WorkflowID ctx \<and> step_key r = key
           \<longrightarrow> status r \<noteq> ''completed''"
    and "fn u = ((result, Some err), u')"
    and "Step cdc ctx s u stepID fn = (res, ctx', s', u'')"
  shows "res = (zero cdc, Some err) \<and> u'' = u'
       \<and> (\<forall>r\<in>set (steps s'). workflow_id r = WorkflowID ctx \<and> step_key r = key
             \<longrightarrow> status r = ''failed'' \<and> error_col r = Some (Error err))
       \<and> ((\<forall>r\<in>set (steps s). step_key r = key \<longrightarrow> workflow_id r = WorkflowID ctx)
           \<longrightarrow> (\<exists>r\<in>set (steps s'). workflow_id r = WorkflowID ctx \<and> step_key r = key
                  \<and> status r = ''failed'' \<and> error_col r = Some (Error err)))"
proof -
  let ?seq = "fst (Step_seq ctx stepID)"
  let ?s1 = "upsert_step_in_progress (WorkflowID ctx) key stepID ?seq s"
  have "Step cdc ctx s u stepID fn =
     Step_execute cdc (snd (Step_seq ctx stepID)) s u stepID ?seq
       (generateStepKey stepID ?seq) fn"
    using assms(1) assms(3) [unfolded assms(2)] assms(4) [unfolded assms(2)]
    by (rule Step_runs_body)
  then have "Step cdc ctx s u stepID fn =
     Step_execute cdc (snd (Step_seq ctx stepID)) s u stepID ?seq key fn"
    by (simp only: assms(2))
  with assms(5) have "Step cdc ctx s u stepID fn =
     ((zero cdc, Some err), snd (Step_seq ctx stepID),
      update_step_failed (Error err) (WorkflowID ctx) key ?s1, u')"
    by (simp add: Step_execute_ok [OF assms(1)])
  with assms(6) have res: "res = (zero cdc, Some err)" and u: "u'' = u'"
    and s': "s' = update_step_failed (Error err) (WorkflowID ctx) key ?s1"
    by simp_all
  have all: "\<forall>r\<in>set (steps s'). workflow_id r = WorkflowID ctx \<and> step_key r = key
             \<longrightarrow> status r = ''failed'' \<and> error_col r = Some (Error err)"
    unfolding s' using update_step_failed_rows by blast
  have ex: "(\<forall>r\<in>set (steps s). step_key r = key \<longrightarrow> workflow_id r = WorkflowID ctx)
           \<longrightarrow> (\<exists>r\<in>set (steps s'). workflow_id r = WorkflowID ctx \<and> step_key r = key
                  \<and> status r = ''failed'' \<and> error_col r = Some (Error err))"
    unfolding s'
    by (intro impI update_step_failed_row upsert_step_in_progress_row)
  from res u all ex show ?thesis by blast
qed

lemma Step_body_error_own_key_example:
  "fst (Step json_int64 (hydrate db2 ''onboarding-employee-001'') db2 (0 :: nat)
          ''create-user-record'' (failing ''boom'')) = (0, Some (New ''boom''))
   \<and> steps (fst (snd (snd (Step json_int64 (hydrate db2 ''onboarding-employee-001'') db2
          (0 :: nat) ''create-user-record'' (failing ''boom'')))))
       = [(row1 ''failed'')\<lparr>error_col := Some ''boom''\<rparr>]
   \<and> (\<exists>r\<in>set (steps (fst (snd (snd (Step json_int64 (hydrate db2 ''onboarding-employee-001'')
          db2 (0 :: nat) ''create-user-record'' (failing ''boom'')))))).
         workflow_id r = ''onboarding-employee-001'' \<and> step_key r = ''create-user-record:1''
         \<and> status r = ''failed'' \<and> error_col r = Some ''boom'')"
proof -
  let ?ctx = "hydrate db2 ''onboarding-employee-001''"
  let ?s' = "db2\<lparr>steps := [(row1 ''failed'')\<lparr>error_col := Some ''boom''\<rparr>]\<rparr>"
  have st: "Step json_int64 ?ctx db2 (0 :: nat) ''create-user-record'' (failing ''boom'')
     = ((0, Some (New ''boom'')), ?ctx, ?s', 1)"
    by (simp add: Step_def Step_seq_def Let_def key1 Step_database_def Step_execute_def
        ok_simps table_defs db2_def row1_def failing_def json_int64_def)
  have h1: "driver db2 = []" by (simp add: db2_def)
  have h2: "''create-user-record:1''
      = generateStepKey ''create-user-record'' (fst (Step_seq ?ctx ''create-user-record''))"
    by (simp add: Step_seq_def table_defs db2_def row1_def key1)
  have h3: "completedSteps ?ctx ''create-user-record:1'' = None"
    by (simp add: table_defs db2_def row1_def)
  have h4: "\<forall>r\<in>set (steps db2). workflow_id r = WorkflowID ?ctx
      \<and> step_key r = ''create-user-record:1'' \<longrightarrow> status r \<noteq> ''completed''"
    by (simp add: db2_def row1_def)
  have h5: "failing ''boom'' (0 :: nat) = ((0, Some (New ''boom'')), 1)"
    by (simp add: failing_def)
  have h6: "\<forall>r\<in>set (steps db2). step_key r = ''create-user-record:1''
      \<longrightarrow> workflow_id r = WorkflowID ?ctx"
    by (simp add: db2_def row1_def hydrate_def)
  have w: "WorkflowID ?ctx = ''onboarding-employee-001''" by (simp add: hydrate_def)
  from Step_body_error_own_key [OF h1 h2 h3 h4 h5 st] h6
  have "\<exists>r\<in>set (steps ?s'). workflow_id r = WorkflowID ?ctx
      \<and> step_key r = ''create-user-record:1''
      \<and> status r = ''failed'' \<and> error_col r = Some (Error (New ''boom''))"
    by blast
  then show ?thesis by (simp add: st w)
qed

text \<open>
  C8. Memo hit: when the cache of the Context already holds the step key, \<open>Step\<close> returns
  the value decoded from the cached bytes (or the decoding error), the storage it returns
  is the storage it was given, pending driver answers included (no read, no write), the
  caller's state is untouched and the result does not depend on the Body (it is not
  invoked). The Context changes at most by the sequence assignment of part 1.
\<close>

theorem Step_memo_hit:
  assumes "completedSteps ctx (generateStepKey stepID (fst (Step_seq ctx stepID))) = Some cached"
  shows "Step cdc ctx s u stepID fn =
     ((case Unmarshal cdc cached of
         Inl err \<Rightarrow> (zero cdc, Some (Errorf ''failed to unmarshal cached result'' err))
       | Inr result \<Rightarrow> (result, None)),
      snd (Step_seq ctx stepID), s, u)"
proof -
  obtain seqNum ctx1 where q: "Step_seq ctx stepID = (seqNum, ctx1)"
    by (cases "Step_seq ctx stepID")
  with completedSteps_Step_seq [of ctx stepID] assms
  have "completedSteps ctx1 (generateStepKey stepID seqNum) = Some cached" by simp
  with q show ?thesis
    by (simp add: Step_def split: sum.splits)
qed

theorem Step_memo_hit_witness:
  "Step json_int64 (hydrate db1 ''onboarding-employee-001'') db1 (0 :: nat)
       ''create-user-record'' (failing ''must not run'')
     = ((12345, None), snd (Step_seq (hydrate db1 ''onboarding-employee-001'') ''create-user-record''),
        db1, 0)"
  using Step_memo_hit [of "hydrate db1 ''onboarding-employee-001''" "''create-user-record''"
      "''12345''" json_int64 db1 "0 :: nat" "failing ''must not run''"]
  by (simp add: table_defs db1_def row1_def Step_seq_def key1 json_int64_def parse12345 fmt12345)

text \<open>
  C6. Only completed records are memo hits. With the \<open>UNIQUE\<close> constraint on
  \<open>step_key\<close> and a driver that reports no failure: \<open>GetStep\<close> returns the stored output
  with \<open>found = true\<close> for a record of the workflow whose status is \<open>completed\<close>; when
  the workflow has no record under the key, or its status is not \<open>completed\<close>
  (\<open>in_progress\<close>, \<open>failed\<close>), it returns not found and no error; and \<open>Step\<close>, on such a
  record and without a cached entry, runs the Body again (the caller's state after the
  call is the one the Body leaves).
\<close>

theorem GetStep_only_completed:
  assumes "distinct (map step_key (steps s))" and "driver s = []"
  shows "(r \<in> set (steps s) \<and> workflow_id r = workflowID \<and> step_key r = stepKey
            \<and> status r = ''completed''
          \<longrightarrow> GetStep s workflowID stepKey = ((scan_blob (output_col r), True, None), s))
       \<and> ((\<forall>r\<in>set (steps s). workflow_id r = workflowID \<and> step_key r = stepKey
              \<longrightarrow> status r \<noteq> ''completed'')
          \<longrightarrow> GetStep s workflowID stepKey = (([], False, None), s))
       \<and> ((\<forall>r\<in>set (steps s). workflow_id r = WorkflowID ctx
                \<and> step_key r = generateStepKey stepID (fst (Step_seq ctx stepID))
              \<longrightarrow> status r \<noteq> ''completed'')
            \<and> completedSteps ctx (generateStepKey stepID (fst (Step_seq ctx stepID))) = None
          \<longrightarrow> snd (snd (snd (Step cdc ctx s u stepID fn))) = snd (fn u))"
proof (intro conjI impI)
  assume "r \<in> set (steps s) \<and> workflow_id r = workflowID \<and> step_key r = stepKey
            \<and> status r = ''completed''"
  with select_step_unique [OF assms(1), of r workflowID stepKey] assms(2)
  show "GetStep s workflowID stepKey = ((scan_blob (output_col r), True, None), s)"
    by (simp add: GetStep_ok)
next
  assume "\<forall>r\<in>set (steps s). workflow_id r = workflowID \<and> step_key r = stepKey
              \<longrightarrow> status r \<noteq> ''completed''"
  with assms(2) show "GetStep s workflowID stepKey = (([], False, None), s)"
    by (rule GetStep_not_completed)
next
  assume a: "(\<forall>r\<in>set (steps s). workflow_id r = WorkflowID ctx
                \<and> step_key r = generateStepKey stepID (fst (Step_seq ctx stepID))
              \<longrightarrow> status r \<noteq> ''completed'')
            \<and> completedSteps ctx (generateStepKey stepID (fst (Step_seq ctx stepID))) = None"
  then have "Step cdc ctx s u stepID fn =
     Step_execute cdc (snd (Step_seq ctx stepID)) s u stepID (fst (Step_seq ctx stepID))
       (generateStepKey stepID (fst (Step_seq ctx stepID))) fn"
    using assms(2) by (intro Step_runs_body) auto
  moreover obtain result e u' where f: "fn u = ((result, e), u')"
    by (metis surj_pair)
  ultimately show "snd (snd (snd (Step cdc ctx s u stepID fn))) = snd (fn u)"
    by (cases e; cases "Marshal cdc result") (simp_all add: Step_execute_ok [OF assms(2)])
qed

theorem GetStep_only_completed_witness:
  "GetStep db1 ''onboarding-employee-001'' ''create-user-record:1'' = ((''12345'', True, None), db1)
   \<and> GetStep db2 ''onboarding-employee-001'' ''create-user-record:1'' = (([], False, None), db2)
   \<and> snd (snd (snd (Step json_int64 (hydrate db2 ''onboarding-employee-001'') db2 (0 :: nat)
          ''create-user-record'' (counted 7)))) = 1"
  using GetStep_only_completed [of db1 "row1 ''completed''" "''onboarding-employee-001''"
      "''create-user-record:1''" "hydrate db1 ''onboarding-employee-002''" "''x''"
      json_int64 "0 :: nat" "counted 7"]
    GetStep_only_completed [of db2 "row1 ''in_progress''" "''onboarding-employee-001''"
      "''create-user-record:1''" "hydrate db2 ''onboarding-employee-001''" "''create-user-record''"
      json_int64 "0 :: nat" "counted 7"]
  by (simp add: table_defs db1_def db2_def row1_def Step_seq_def key1 counted_def)

section \<open>Engine.Execute\<close>

lemma insert_or_ignore_existing:
  "select_workflow s workflowID = Some r \<Longrightarrow> insert_or_ignore_workflow workflowID st s = s"
  by (auto simp: insert_or_ignore_workflow_def select_workflow_def find_Some_iff)

lemma select_workflow_driver [simp]:
  "select_workflow (s\<lparr>driver := d\<rparr>) workflowID = select_workflow s workflowID"
  by (simp add: select_workflow_def)

lemma CreateWorkflow_existing:
  assumes "select_workflow s workflowID = Some r"
  shows "\<exists>d err. CreateWorkflow s workflowID = (err, s\<lparr>driver := d\<rparr>)"
proof -
  have n: "\<And>d. insert_or_ignore_workflow workflowID ''running'' (s\<lparr>driver := d\<rparr>) = s\<lparr>driver := d\<rparr>"
    using assms by (intro insert_or_ignore_existing [where r = r]) simp
  from retryOnBusy_cases [of "insert_or_ignore_workflow workflowID ''running''" s]
  show ?thesis unfolding CreateWorkflow_def n by blast
qed

lemma GetWorkflowStatus_existing:
  assumes "select_workflow s workflowID = Some r"
  shows "\<exists>d. GetWorkflowStatus s workflowID = ((wf_status r, None), s\<lparr>driver := d\<rparr>)
           \<or> (\<exists>err. GetWorkflowStatus s workflowID = (([], Some err), s\<lparr>driver := d\<rparr>))"
proof -
  from db_call_cases [of s] obtain d where
    "db_call s = (None, s\<lparr>driver := d\<rparr>) \<or> (\<exists>e. db_call s = (Some e, s\<lparr>driver := d\<rparr>))"
    by blast
  then show ?thesis
  proof
    assume "db_call s = (None, s\<lparr>driver := d\<rparr>)"
    with assms have "GetWorkflowStatus s workflowID = ((wf_status r, None), s\<lparr>driver := d\<rparr>)"
      by (simp add: GetWorkflowStatus_def)
    then show ?thesis by blast
  next
    assume "\<exists>e. db_call s = (Some e, s\<lparr>driver := d\<rparr>)"
    then obtain e where "db_call s = (Some e, s\<lparr>driver := d\<rparr>)" by blast
    then have "GetWorkflowStatus s workflowID
        = (([], Some (Errorf ''failed to get workflow status'' e)), s\<lparr>driver := d\<rparr>)"
      by (simp add: GetWorkflowStatus_def)
    then show ?thesis by blast
  qed
qed

lemma Execute_completed_any_driver:
  assumes "select_workflow s workflowID = Some r" and "wf_status r = ''completed''"
  shows "\<exists>err d. \<forall>workflowFn. Execute s u workflowID workflowFn = (err, s\<lparr>driver := d\<rparr>, u)"
proof -
  from CreateWorkflow_existing [OF assms(1)] obtain d1 err1
    where c: "CreateWorkflow s workflowID = (err1, s\<lparr>driver := d1\<rparr>)" by blast
  show ?thesis
  proof (cases err1)
    case (Some e)
    with c show ?thesis by (auto simp: Execute_def)
  next
    case None
    have "select_workflow (s\<lparr>driver := d1\<rparr>) workflowID = Some r"
      using assms(1) by simp
    from GetWorkflowStatus_existing [OF this] obtain d2 where
      "GetWorkflowStatus (s\<lparr>driver := d1\<rparr>) workflowID = ((wf_status r, None), s\<lparr>driver := d2\<rparr>)
       \<or> (\<exists>err. GetWorkflowStatus (s\<lparr>driver := d1\<rparr>) workflowID = (([], Some err), s\<lparr>driver := d2\<rparr>))"
      by auto
    then show ?thesis
    proof
      assume "GetWorkflowStatus (s\<lparr>driver := d1\<rparr>) workflowID = ((wf_status r, None), s\<lparr>driver := d2\<rparr>)"
      with c None assms(2) have "\<forall>workflowFn. Execute s u workflowID workflowFn = (None, s\<lparr>driver := d2\<rparr>, u)"
        by (simp add: Execute_def)
      then show ?thesis by blast
    next
      assume "\<exists>err. GetWorkflowStatus (s\<lparr>driver := d1\<rparr>) workflowID = (([], Some err), s\<lparr>driver := d2\<rparr>)"
      then obtain err where "GetWorkflowStatus (s\<lparr>driver := d1\<rparr>) workflowID = (([], Some err), s\<lparr>driver := d2\<rparr>)"
        by blast
      with c None have "\<forall>workflowFn. Execute s u workflowID workflowFn
          = (Some (Errorf ''failed to get workflow status'' err), s\<lparr>driver := d2\<rparr>, u)"
        by (simp add: Execute_def)
      then show ?thesis by blast
    qed
  qed
qed

lemma Execute_completed_ok:
  assumes "select_workflow s workflowID = Some r" and "wf_status r = ''completed''"
    and "driver s = []"
  shows "Execute s u workflowID workflowFn = (None, s, u)"
proof -
  have "CreateWorkflow s workflowID = (None, s)"
    using assms by (simp add: CreateWorkflow_def retryOnBusy_ok db_Exec_ok insert_or_ignore_existing)
  moreover have "GetWorkflowStatus s workflowID = ((''completed'', None), s)"
    using assms by (simp add: GetWorkflowStatus_def db_call_ok)
  ultimately show ?thesis by (simp add: Execute_def)
qed

text \<open>
  C2. A completed workflow is terminal: when the persisted status of the workflow is
  \<open>completed\<close>, \<open>Execute\<close> returns the same result for every workflow function (the
  Procedure is not invoked, so no Body is), the tables and the caller's state are
  unchanged, so the status remains \<open>completed\<close>; and with a driver that reports no failure
  the result is success and the storage is untouched.
\<close>

theorem Execute_completed_noop:
  assumes "select_workflow s workflowID = Some r" and "wf_status r = ''completed''"
  shows "(\<exists>err d. \<forall>workflowFn. Execute s u workflowID workflowFn = (err, s\<lparr>driver := d\<rparr>, u))
       \<and> select_workflow (fst (snd (Execute s u workflowID workflowFn))) workflowID = Some r
       \<and> (driver s = [] \<longrightarrow> Execute s u workflowID workflowFn = (None, s, u))"
proof (intro conjI impI)
  from Execute_completed_any_driver [OF assms, of u]
  show a: "\<exists>err d. \<forall>workflowFn. Execute s u workflowID workflowFn = (err, s\<lparr>driver := d\<rparr>, u)" .
  then obtain err d where "Execute s u workflowID workflowFn = (err, s\<lparr>driver := d\<rparr>, u)"
    by blast
  with assms(1) show "select_workflow (fst (snd (Execute s u workflowID workflowFn))) workflowID = Some r"
    by simp
next
  assume "driver s = []"
  with assms show "Execute s u workflowID workflowFn = (None, s, u)"
    by (rule Execute_completed_ok)
qed

theorem Execute_completed_noop_witness:
  "Execute db1 (0 :: nat) ''onboarding-employee-001'' one_step_then_crash = (None, db1, 0)"
  using Execute_completed_noop [of db1 "''onboarding-employee-001''"
      "\<lparr>wf_id = ''onboarding-employee-001'', wf_status = ''completed''\<rparr>" "0 :: nat"
      one_step_then_crash]
  by (simp add: db1_def select_workflow_def)

section \<open>Two workflows that share a step ID\<close>

lemma e1: "Execute empty_db 0 ''onboarding-employee-001'' one_step = (None, db1, 1)"
  by (simp add: Execute_def ok_simps table_defs empty_db_def one_step_def Step_def Step_seq_def
      Step_database_def Step_execute_def key1 fmt12345 Let_def json_int64_def counted_def db1_def row1_def)

lemmas scenario_simps = Execute_def ok_simps table_defs Step_def Step_seq_def
      Step_database_def Step_execute_def key1 fmt12345 Let_def json_int64_def counted_def

lemma e2: "Execute db1 0 ''onboarding-employee-002'' one_step_then_crash
    = (Some (Errorf ''workflow execution failed'' (New ''simulated crash'')), db2, 1)"
  by (simp add: scenario_simps one_step_then_crash_def db1_def db2_def row1_def)

lemma e3: "Execute db2 (Suc 0) ''onboarding-employee-002'' one_step = (None, db3, 2)"
  by (simp add: scenario_simps one_step_def db2_def db3_def row1_def)

text \<open>
  C1 (the code at a failing input). Table \<open>steps\<close> declares \<open>step_key\<close> unique over all
  workflows, while sequence numbers start at 1 in every workflow. The first step of
  workflow 002 gets the key \<open>create-user-record:1\<close> that workflow 001 already holds: the
  upsert of \<open>MarkStepInProgress\<close> hits the row of workflow 001 and sets it back to
  \<open>in_progress\<close>, \<open>SaveStep\<close> (which selects by workflow and key) updates nothing, and
  \<open>Step\<close> returns Ok. The workflow function then fails; on the next \<open>Execute\<close> of workflow
  002 the same \<open>Step\<close> finds no record and runs the Body a second time, which returns Ok
  again: the counter ends at 2, and workflow 002 still has no step record.
\<close>

theorem memoization_lost_between_workflows:
  "two_workflows = ((None, Some (Errorf ''workflow execution failed'' (New ''simulated crash'')), None), db3, 2)"
  by (simp add: two_workflows_def e1 e2 e3 numeral_2_eq_2)

section \<open>What a Step call does to the records and to the Context\<close>

lemma ident_updates [simp]:
  "ident (r\<lparr>status := st\<rparr>) = ident r"
  "ident (r\<lparr>output_col := out\<rparr>) = ident r"
  "ident (r\<lparr>error_col := msg\<rparr>) = ident r"
  by (simp_all add: ident_def)

lemma idents_update_step_completed [simp]:
  "map ident (steps (update_step_completed out w k s)) = map ident (steps s)"
  by (simp add: update_step_completed_def comp_def)

lemma idents_update_step_failed [simp]:
  "map ident (steps (update_step_failed msg w k s)) = map ident (steps s)"
  by (simp add: update_step_failed_def comp_def)

lemma idents_upsert_step_in_progress:
  "map ident (steps (upsert_step_in_progress w k i n s)) =
     (if \<exists>r\<in>set (steps s). step_key r = k then map ident (steps s)
      else map ident (steps s) @ [(w, i, n, k)])"
  by (simp add: upsert_step_in_progress_def comp_def ident_def)

lemma retryOnBusy_steps:
  assumes "retryOnBusy (db_Exec stmt) s = (e, s')"
  shows "\<exists>d. s' = s\<lparr>driver := d\<rparr> \<or> s' = stmt (s\<lparr>driver := d\<rparr>)"
  using retryOnBusy_cases [of stmt s] assms by auto

lemma SaveStep_idents: "map ident (steps (snd (SaveStep s w k out))) = map ident (steps s)"
proof -
  obtain e s' where r: "SaveStep s w k out = (e, s')" by (cases "SaveStep s w k out")
  then have "\<exists>d. s' = s\<lparr>driver := d\<rparr> \<or> s' = update_step_completed out w k (s\<lparr>driver := d\<rparr>)"
    unfolding SaveStep_def by (rule retryOnBusy_steps)
  then have "map ident (steps s') = map ident (steps s)" by auto
  with r show ?thesis by simp
qed

lemma SaveStepError_idents:
  "map ident (steps (snd (SaveStepError s w k msg))) = map ident (steps s)"
proof -
  obtain e s' where r: "SaveStepError s w k msg = (e, s')" by (cases "SaveStepError s w k msg")
  then have "\<exists>d. s' = s\<lparr>driver := d\<rparr> \<or> s' = update_step_failed msg w k (s\<lparr>driver := d\<rparr>)"
    unfolding SaveStepError_def by (rule retryOnBusy_steps)
  then have "map ident (steps s') = map ident (steps s)" by auto
  with r show ?thesis by simp
qed

lemma MarkStepInProgress_idents:
  "map ident (steps (snd (MarkStepInProgress s w k i n))) = map ident (steps s)
   \<or> map ident (steps (snd (MarkStepInProgress s w k i n))) = map ident (steps s) @ [(w, i, n, k)]"
proof -
  obtain e s' where r: "MarkStepInProgress s w k i n = (e, s')"
    by (cases "MarkStepInProgress s w k i n")
  then have "\<exists>d. s' = s\<lparr>driver := d\<rparr> \<or> s' = upsert_step_in_progress w k i n (s\<lparr>driver := d\<rparr>)"
    unfolding MarkStepInProgress_def by (rule retryOnBusy_steps)
  then have "map ident (steps s') = map ident (steps s)
      \<or> map ident (steps s') = map ident (steps s) @ [(w, i, n, k)]"
    by (elim exE disjE) (simp_all add: idents_upsert_step_in_progress)
  with r show ?thesis by simp
qed

lemma db_call_steps [simp]: "steps (snd (db_call s)) = steps s"
  by (simp add: db_call_def split: list.splits option.splits)

lemma db_call_workflows [simp]: "workflows (snd (db_call s)) = workflows s"
  by (simp add: db_call_def split: list.splits option.splits)

lemma GetStep_steps [simp]: "steps (snd (GetStep s w k)) = steps s"
proof -
  obtain e s1 where c: "db_call s = (e, s1)" by (cases "db_call s")
  with db_call_steps [of s] have "steps s1 = steps s" by simp
  with c show ?thesis
    by (simp add: GetStep_def QueryRow_step_def split: option.splits)
qed

lemma grown_refl: "steps s' = steps s \<Longrightarrow> grown s s' new"
  by (simp add: grown_def)

lemma grown_trans_same:
  "grown s s1 new \<Longrightarrow> map ident (steps s') = map ident (steps s1) \<Longrightarrow> grown s s' new"
  by (simp add: grown_def)

lemma Step_execute_effect:
  assumes "Step_execute cdc ctx s u stepID seqNum stepKey fn = (res, ctx', s', u')"
  shows "grown s s' (WorkflowID ctx, stepID, seqNum, stepKey)
       \<and> WorkflowID ctx' = WorkflowID ctx \<and> sequenceNum ctx' = sequenceNum ctx
       \<and> stepIDToSeq ctx' = stepIDToSeq ctx"
proof -
  let ?new = "(WorkflowID ctx, stepID, seqNum, stepKey)"
  obtain e1 s1 where m: "MarkStepInProgress s (WorkflowID ctx) stepKey stepID seqNum = (e1, s1)"
    by (cases "MarkStepInProgress s (WorkflowID ctx) stepKey stepID seqNum")
  with MarkStepInProgress_idents [of s "WorkflowID ctx" stepKey stepID seqNum]
  have g1: "grown s s1 ?new" by (simp add: grown_def)
  show ?thesis
  proof (cases e1)
    case (Some err)
    with m assms g1 show ?thesis by (auto simp: Step_execute_def)
  next
    case None
    obtain result e u2 where f: "fn u = ((result, e), u2)" by (metis surj_pair)
    show ?thesis
    proof (cases e)
      case (Some err)
      with m None f assms have s': "s' = snd (SaveStepError s1 (WorkflowID ctx) stepKey (Error err))"
        and c: "ctx' = ctx" by (auto simp: Step_execute_def)
      from g1 have "grown s s' ?new"
        unfolding s' by (rule grown_trans_same) (rule SaveStepError_idents)
      with c show ?thesis by simp
    next
      case n: None
      show ?thesis
      proof (cases "Marshal cdc result")
        case (Inl err)
        with m None f n assms g1 show ?thesis by (auto simp: Step_execute_def)
      next
        case (Inr out)
        obtain e2 s2 where sv: "SaveStep s1 (WorkflowID ctx) stepKey out = (e2, s2)"
          by (cases "SaveStep s1 (WorkflowID ctx) stepKey out")
        with SaveStep_idents [of s1 "WorkflowID ctx" stepKey out]
        have "map ident (steps s2) = map ident (steps s1)" by simp
        with g1 have g2: "grown s s2 ?new" by (rule grown_trans_same)
        from m None f n Inr sv assms have "s' = s2"
          by (cases e2) (auto simp: Step_execute_def)
        moreover from m None f n Inr sv assms
        have "WorkflowID ctx' = WorkflowID ctx \<and> sequenceNum ctx' = sequenceNum ctx
            \<and> stepIDToSeq ctx' = stepIDToSeq ctx"
          by (cases e2) (auto simp: Step_execute_def)
        ultimately show ?thesis using g2 by simp
      qed
    qed
  qed
qed

lemma Step_database_effect:
  assumes "Step_database cdc ctx s u stepID seqNum stepKey fn = (res, ctx', s', u')"
  shows "grown s s' (WorkflowID ctx, stepID, seqNum, stepKey)
       \<and> WorkflowID ctx' = WorkflowID ctx \<and> sequenceNum ctx' = sequenceNum ctx
       \<and> stepIDToSeq ctx' = stepIDToSeq ctx"
proof -
  let ?new = "(WorkflowID ctx, stepID, seqNum, stepKey)"
  obtain out found e s1 where g: "GetStep s (WorkflowID ctx) stepKey = ((out, found, e), s1)"
    by (metis surj_pair)
  with GetStep_steps [of s "WorkflowID ctx" stepKey] have st: "steps s1 = steps s" by simp
  show ?thesis
  proof (cases e)
    case (Some err)
    with g assms st show ?thesis by (auto simp: Step_database_def grown_def)
  next
    case None
    show ?thesis
    proof (cases found)
      case True
      with g None assms st show ?thesis
        by (cases "Unmarshal cdc out") (auto simp: Step_database_def grown_def)
    next
      case False
      with g None assms
      have "Step_execute cdc ctx s1 u stepID seqNum stepKey fn = (res, ctx', s', u')"
        by (simp add: Step_database_def)
      from Step_execute_effect [OF this] st show ?thesis by (simp add: grown_def)
    qed
  qed
qed

lemma Step_seq_fields:
  "WorkflowID (snd (Step_seq ctx stepID)) = WorkflowID ctx"
  "stepIDToSeq (snd (Step_seq ctx stepID)) stepID = Some (fst (Step_seq ctx stepID))"
  "stepIDToSeq ctx x = Some n \<Longrightarrow> stepIDToSeq (snd (Step_seq ctx stepID)) x = Some n"
  by (auto simp: Step_seq_def Let_def split: option.splits)

lemma Step_effect:
  assumes "Step cdc ctx s u stepID fn = (res, ctx', s', u')"
  shows "grown s s' (WorkflowID ctx, stepID, fst (Step_seq ctx stepID),
           generateStepKey stepID (fst (Step_seq ctx stepID)))
       \<and> WorkflowID ctx' = WorkflowID ctx
       \<and> sequenceNum ctx' = sequenceNum (snd (Step_seq ctx stepID))
       \<and> stepIDToSeq ctx' = stepIDToSeq (snd (Step_seq ctx stepID))"
proof -
  obtain seqNum ctx1 where q: "Step_seq ctx stepID = (seqNum, ctx1)"
    by (cases "Step_seq ctx stepID")
  with Step_seq_fields(1) [of ctx stepID] have w: "WorkflowID ctx1 = WorkflowID ctx" by simp
  show ?thesis
  proof (cases "completedSteps ctx1 (generateStepKey stepID seqNum)")
    case (Some cached)
    with q assms w show ?thesis
      by (cases "Unmarshal cdc cached") (auto simp: Step_def grown_def)
  next
    case None
    with q assms
    have "Step_database cdc ctx1 s u stepID seqNum (generateStepKey stepID seqNum) fn
        = (res, ctx', s', u')"
      by (simp add: Step_def)
    from Step_database_effect [OF this] q w show ?thesis by simp
  qed
qed

section \<open>Sequence numbers\<close>

lemma sint_succ_int64:
  fixes x :: int64
  assumes "sint x < 2 ^ 63 - 1"
  shows "sint (x + 1) = sint x + 1"
proof -
  have lo: "- (2 ^ 63) \<le> sint x" using sint_ge [of x] by simp
  have "sint (x + 1) = signed_take_bit 63 (sint x + 1)"
    by (simp add: sint_word_ariths)
  also have "\<dots> = sint x + 1"
    using lo assms by (intro signed_take_bit_int_eq_self) simp_all
  finally show ?thesis .
qed








lemma foldl_mapping_lookup:
  "foldl (\<lambda>m r. m(step_id r \<mapsto> sequence_num r)) m0 xs k =
     (case find (\<lambda>r. step_id r = k) (rev xs) of
        None \<Rightarrow> m0 k
      | Some r \<Rightarrow> Some (sequence_num r))"
  by (induction xs rule: rev_induct) simp_all


lemma find_SomeD: "find P xs = Some x \<Longrightarrow> x \<in> set xs \<and> P x"
  by (induction xs) (auto split: if_splits)




lemma hydrate_mapping_row:
  assumes "seq_functional s w" and "r \<in> set (workflow_steps s w)"
  shows "stepIDToSeq (hydrate s w) (step_id r) = Some (sequence_num r)"
proof (cases "find (\<lambda>x. step_id x = step_id r) (rev (workflow_steps s w))")
  case None
  then have "\<not> (\<exists>x. x \<in> set (rev (workflow_steps s w)) \<and> step_id x = step_id r)"
    by (simp add: find_None_iff)
  with assms(2) show ?thesis by auto
next
  case (Some r')
  from find_SomeD [OF this]
  have m: "r' \<in> set (workflow_steps s w)" and i: "step_id r' = step_id r"
    by simp_all
  from assms(1) m assms(2) i have e: "sequence_num r' = sequence_num r"
    unfolding seq_functional_def by blast
  have "stepIDToSeq (hydrate s w) (step_id r) = Some (sequence_num r')"
    by (simp add: hydrate_def foldl_mapping_lookup Some)
  then show ?thesis by (simp only: e)
qed


lemma WorkflowID_hydrate [simp]: "WorkflowID (hydrate s w) = w"
  by (simp add: hydrate_def)




lemma hydrate_agrees: "seq_functional s w \<Longrightarrow> agrees (hydrate s w) s"
  by (simp add: agrees_def hydrate_mapping_row)






lemma workflow_steps_driver [simp]: "workflow_steps (s\<lparr>driver := d\<rparr>) w = workflow_steps s w"
  by (simp add: workflow_steps_def)


lemma db_call_driver: "\<exists>d. snd (db_call s) = s\<lparr>driver := d\<rparr>"
  using db_call_cases [of s] by auto

lemma newContext_Inr:
  assumes "newContext w s = (Inr ctx, s')"
  shows "ctx = hydrate s w \<and> (\<exists>d. s' = s\<lparr>driver := d\<rparr>)"
proof -
  obtain e1 s1 where c1: "db_call s = (e1, s1)" by (cases "db_call s")
  obtain e2 s2 where c2: "db_call s1 = (e2, s2)" by (cases "db_call s1")
  obtain e3 s3 where c3: "db_call s2 = (e3, s3)" by (cases "db_call s2")
  obtain e4 s4 where c4: "db_call s3 = (e4, s4)" by (cases "db_call s3")
  obtain e5 s5 where c5: "db_call s4 = (e5, s5)" by (cases "db_call s4")
  from db_call_driver [of s] c1 obtain d1 where d1: "s1 = s\<lparr>driver := d1\<rparr>" by auto
  from db_call_driver [of s1] c2 d1 obtain d2 where d2: "s2 = s\<lparr>driver := d2\<rparr>" by auto
  from db_call_driver [of s2] c3 d2 obtain d3 where d3: "s3 = s\<lparr>driver := d3\<rparr>" by auto
  from db_call_driver [of s3] c4 d3 obtain d4 where d4: "s4 = s\<lparr>driver := d4\<rparr>" by auto
  from db_call_driver [of s4] c5 d4 obtain d5 where d5: "s5 = s\<lparr>driver := d5\<rparr>" by auto
  show ?thesis
  proof (cases "e1 = None \<and> e2 = None \<and> e3 = None \<and> e4 = None \<and> e5 = None")
    case True
    then have "newContext w s = (Inr (hydrate s w), s5)"
      using c1 c2 c3 c4 c5 d1 d2 d3 d4 d5
      by (simp add: newContext_def LoadCompletedSteps_def LoadStepIDMapping_def
          GetMaxSequenceNum_def hydrate_def Let_def split: option.splits)
    with assms d5 show ?thesis by auto
  next
    case False
    then have "\<exists>err s''. newContext w s = (Inl err, s'')"
      using c1 c2 c3 c4 c5 d1 d2 d3 d4
      by (cases e1; cases e2; cases e3; cases e4; cases e5)
        (simp_all add: newContext_def LoadCompletedSteps_def LoadStepIDMapping_def
          GetMaxSequenceNum_def Let_def split: option.splits)
    with assms show ?thesis by auto
  qed
qed

lemma mem_workflow_steps:
  "r \<in> set (workflow_steps s w) \<longleftrightarrow> r \<in> set (steps s) \<and> workflow_id r = w"
  by (auto simp: workflow_steps_def)

lemma grown_rows:
  assumes "grown s s' new" and "r' \<in> set (steps s')"
  shows "(\<exists>r\<in>set (steps s). ident r = ident r') \<or> ident r' = new"
proof -
  from assms(1) have "set (map ident (steps s')) \<subseteq> set (map ident (steps s)) \<union> {new}"
    unfolding grown_def by (elim disjE) auto
  moreover from assms(2) have "ident r' \<in> set (map ident (steps s'))" by simp
  ultimately have "ident r' \<in> set (map ident (steps s)) \<or> ident r' = new" by blast
  then show ?thesis by (auto simp: image_iff)
qed

lemma ident_fields:
  "ident r = ident r' \<Longrightarrow> workflow_id r = workflow_id r' \<and> step_id r = step_id r'
     \<and> sequence_num r = sequence_num r' \<and> step_key r = step_key r'"
  by (simp add: ident_def)

lemma ident_new:
  "ident r = (w, i, n, k) \<Longrightarrow> workflow_id r = w \<and> step_id r = i
     \<and> sequence_num r = n \<and> step_key r = k"
  by (simp add: ident_def)

lemma Step_mapping:
  assumes "Step cdc ctx s u stepID fn = (res, ctx', s', u')"
  shows "stepIDToSeq ctx' stepID = Some (fst (Step_seq ctx stepID))"
    and "stepIDToSeq ctx x = Some n \<Longrightarrow> stepIDToSeq ctx' x = Some n"
    and "WorkflowID ctx' = WorkflowID ctx"
proof -
  from Step_effect [OF assms]
  have m: "stepIDToSeq ctx' = stepIDToSeq (snd (Step_seq ctx stepID))"
    and w: "WorkflowID ctx' = WorkflowID ctx" by simp_all
  show "stepIDToSeq ctx' stepID = Some (fst (Step_seq ctx stepID))"
    unfolding m by (rule Step_seq_fields(2))
  show "stepIDToSeq ctx x = Some n \<Longrightarrow> stepIDToSeq ctx' x = Some n"
    unfolding m by (rule Step_seq_fields(3))
  show "WorkflowID ctx' = WorkflowID ctx" by (rule w)
qed

lemma Step_agrees:
  assumes "agrees ctx s" and "Step cdc ctx s u stepID fn = (res, ctx', s', u')"
  shows "agrees ctx' s'"
  unfolding agrees_def
proof
  fix r' assume "r' \<in> set (workflow_steps s' (WorkflowID ctx'))"
  then have m: "r' \<in> set (steps s')" and w: "workflow_id r' = WorkflowID ctx"
    using Step_mapping(3) [OF assms(2)] by (simp_all add: mem_workflow_steps)
  from Step_effect [OF assms(2)]
  have "grown s s' (WorkflowID ctx, stepID, fst (Step_seq ctx stepID),
           generateStepKey stepID (fst (Step_seq ctx stepID)))" by simp
  from grown_rows [OF this m]
  show "stepIDToSeq ctx' (step_id r') = Some (sequence_num r')"
  proof
    assume "\<exists>r\<in>set (steps s). ident r = ident r'"
    then obtain r where r: "r \<in> set (steps s)" and i: "ident r = ident r'" by blast
    from ident_fields [OF i] w r have "r \<in> set (workflow_steps s (WorkflowID ctx))"
      by (simp add: mem_workflow_steps)
    with assms(1) have "stepIDToSeq ctx (step_id r) = Some (sequence_num r)"
      by (simp add: agrees_def)
    then have "stepIDToSeq ctx' (step_id r) = Some (sequence_num r)"
      by (rule Step_mapping(2) [OF assms(2)])
    with ident_fields [OF i] show ?thesis by simp
  next
    assume "ident r' = (WorkflowID ctx, stepID, fst (Step_seq ctx stepID),
           generateStepKey stepID (fst (Step_seq ctx stepID)))"
    from ident_new [OF this] Step_mapping(1) [OF assms(2)] show ?thesis by simp
  qed
qed

lemma Step_keys_wellformed:
  assumes "keys_wellformed s" and "Step cdc ctx s u stepID fn = (res, ctx', s', u')"
  shows "keys_wellformed s'"
  unfolding keys_wellformed_def
proof
  fix r' assume m: "r' \<in> set (steps s')"
  from Step_effect [OF assms(2)]
  have "grown s s' (WorkflowID ctx, stepID, fst (Step_seq ctx stepID),
           generateStepKey stepID (fst (Step_seq ctx stepID)))" by simp
  from grown_rows [OF this m]
  show "step_key r' = generateStepKey (step_id r') (sequence_num r')"
  proof
    assume "\<exists>r\<in>set (steps s). ident r = ident r'"
    then obtain r where r: "r \<in> set (steps s)" and i: "ident r = ident r'" by blast
    from assms(1) r have "step_key r = generateStepKey (step_id r) (sequence_num r)"
      by (simp add: keys_wellformed_def)
    with ident_fields [OF i] show ?thesis by metis
  next
    assume "ident r' = (WorkflowID ctx, stepID, fst (Step_seq ctx stepID),
           generateStepKey stepID (fst (Step_seq ctx stepID)))"
    from ident_new [OF this] show ?thesis by simp
  qed
qed

lemma Step_seq_counter:
  "stepIDToSeq ctx stepID = Some n \<Longrightarrow> Step_seq ctx stepID = (n, ctx)"
  "stepIDToSeq ctx stepID = None \<Longrightarrow>
     fst (Step_seq ctx stepID) = sequenceNum ctx + 1
     \<and> sequenceNum (snd (Step_seq ctx stepID)) = sequenceNum ctx + 1
     \<and> stepIDToSeq (snd (Step_seq ctx stepID)) = (stepIDToSeq ctx)(stepID \<mapsto> sequenceNum ctx + 1)"
  by (simp_all add: Step_seq_def Let_def)

lemma Step_seq_bounded_aux:
  assumes b: "seq_bounded ctx s"
    and o: "stepIDToSeq ctx stepID = None \<longrightarrow> sint (sequenceNum ctx) < 2 ^ 63 - 1"
  shows "sint (sequenceNum ctx) \<le> sint (sequenceNum (snd (Step_seq ctx stepID)))
       \<and> sint (sequenceNum (snd (Step_seq ctx stepID))) \<le> sint (sequenceNum ctx) + 1
       \<and> sint (fst (Step_seq ctx stepID)) \<le> sint (sequenceNum (snd (Step_seq ctx stepID)))
       \<and> (\<forall>x n. stepIDToSeq (snd (Step_seq ctx stepID)) x = Some n
             \<longrightarrow> sint n \<le> sint (sequenceNum (snd (Step_seq ctx stepID))))"
proof (cases "stepIDToSeq ctx stepID")
  case None
  with o have "sint (sequenceNum ctx + 1) = sint (sequenceNum ctx) + 1"
    by (intro sint_succ_int64) simp
  moreover from b have "\<And>x n. stepIDToSeq ctx x = Some n \<Longrightarrow> sint n \<le> sint (sequenceNum ctx)"
    by (simp add: seq_bounded_def)
  ultimately show ?thesis
    using Step_seq_counter(2) [OF None] by (auto simp: le_less split: if_splits)
next
  case (Some n)
  from b have "\<And>x n. stepIDToSeq ctx x = Some n \<Longrightarrow> sint n \<le> sint (sequenceNum ctx)"
    by (simp add: seq_bounded_def)
  with Some show ?thesis
    using Step_seq_counter(1) [OF Some] by auto
qed

lemma Step_seq_bounded:
  assumes b: "seq_bounded ctx s"
    and o: "stepIDToSeq ctx stepID = None \<longrightarrow> sint (sequenceNum ctx) < 2 ^ 63 - 1"
    and st: "Step cdc ctx s u stepID fn = (res, ctx', s', u')"
  shows "seq_bounded ctx' s' \<and> sint (sequenceNum ctx) \<le> sint (sequenceNum ctx')
       \<and> sint (sequenceNum ctx') \<le> sint (sequenceNum ctx) + 1"
proof -
  let ?ctx1 = "snd (Step_seq ctx stepID)"
  from Step_effect [OF st]
  have g: "grown s s' (WorkflowID ctx, stepID, fst (Step_seq ctx stepID),
           generateStepKey stepID (fst (Step_seq ctx stepID)))"
    and w: "WorkflowID ctx' = WorkflowID ctx"
    and c: "sequenceNum ctx' = sequenceNum ?ctx1"
    and m: "stepIDToSeq ctx' = stepIDToSeq ?ctx1" by simp_all
  from Step_seq_bounded_aux [OF b o]
  have a1: "sint (sequenceNum ctx) \<le> sint (sequenceNum ctx')"
    and a2: "sint (sequenceNum ctx') \<le> sint (sequenceNum ctx) + 1"
    and a3: "sint (fst (Step_seq ctx stepID)) \<le> sint (sequenceNum ctx')"
    and a4: "\<And>x n. stepIDToSeq ctx' x = Some n \<Longrightarrow> sint n \<le> sint (sequenceNum ctx')"
    unfolding c m by simp_all
  have rows: "sint (sequence_num r') \<le> sint (sequenceNum ctx')"
    if "r' \<in> set (workflow_steps s' (WorkflowID ctx'))" for r'
  proof -
    from that w have r': "r' \<in> set (steps s')" and wr: "workflow_id r' = WorkflowID ctx"
      by (simp_all add: mem_workflow_steps)
    from grown_rows [OF g r'] show ?thesis
    proof
      assume "\<exists>r\<in>set (steps s). ident r = ident r'"
      then obtain r where r: "r \<in> set (steps s)" and i: "ident r = ident r'" by blast
      from ident_fields [OF i] wr r have "r \<in> set (workflow_steps s (WorkflowID ctx))"
        by (simp add: mem_workflow_steps)
      with b have "sint (sequence_num r) \<le> sint (sequenceNum ctx)"
        by (simp add: seq_bounded_def)
      with a1 ident_fields [OF i] show ?thesis by simp
    next
      assume "ident r' = (WorkflowID ctx, stepID, fst (Step_seq ctx stepID),
           generateStepKey stepID (fst (Step_seq ctx stepID)))"
      from ident_new [OF this] a3 show ?thesis by simp
    qed
  qed
  from rows a4 have "seq_bounded ctx' s'"
    unfolding seq_bounded_def by blast
  with a1 a2 show ?thesis by simp
qed

lemma run_steps_invariants:
  assumes "run_steps cdc ctx s u calls = (seqs, ctx', s', u')"
  shows "WorkflowID ctx' = WorkflowID ctx
       \<and> (\<forall>x n. stepIDToSeq ctx x = Some n \<longrightarrow> stepIDToSeq ctx' x = Some n)
       \<and> seqs = map (\<lambda>c. the (stepIDToSeq ctx' (fst c))) calls
       \<and> (agrees ctx s \<longrightarrow> agrees ctx' s')
       \<and> (keys_wellformed s \<longrightarrow> keys_wellformed s')
       \<and> (seq_bounded ctx s \<and> sint (sequenceNum ctx) + int (length calls) \<le> 2 ^ 63 - 1
            \<longrightarrow> seq_bounded ctx' s'
               \<and> sint (sequenceNum ctx') \<le> sint (sequenceNum ctx) + int (length calls))"
  using assms
proof (induction calls arbitrary: ctx s u seqs)
  case Nil
  then show ?case by simp
next
  case (Cons c calls)
  obtain stepID fn where c: "c = (stepID, fn)" by (cases c)
  obtain res ctx1 s1 u1 where st: "Step cdc ctx s u stepID fn = (res, ctx1, s1, u1)"
    by (metis prod_cases4)
  obtain seqs1 where r: "run_steps cdc ctx1 s1 u1 calls = (seqs1, ctx', s', u')"
    and sq: "seqs = fst (Step_seq ctx stepID) # seqs1"
    using Cons.prems c st by (auto split: prod.splits)
  note ih = Cons.IH [OF r]
  have w: "WorkflowID ctx' = WorkflowID ctx"
    using ih Step_mapping(3) [OF st] by simp
  have mono: "\<forall>x n. stepIDToSeq ctx x = Some n \<longrightarrow> stepIDToSeq ctx' x = Some n"
    using ih Step_mapping(2) [OF st] by blast
  have "stepIDToSeq ctx' stepID = Some (fst (Step_seq ctx stepID))"
    using ih Step_mapping(1) [OF st] by blast
  with ih sq c have seqs: "seqs = map (\<lambda>c. the (stepIDToSeq ctx' (fst c))) (c # calls)"
    by simp
  have ag: "agrees ctx s \<longrightarrow> agrees ctx' s'"
    using ih Step_agrees [OF _ st] by blast
  have kw: "keys_wellformed s \<longrightarrow> keys_wellformed s'"
    using ih Step_keys_wellformed [OF _ st] by blast
  have bd: "seq_bounded ctx' s'
      \<and> sint (sequenceNum ctx') \<le> sint (sequenceNum ctx) + int (length (c # calls))"
    if b: "seq_bounded ctx s"
      and o: "sint (sequenceNum ctx) + int (length (c # calls)) \<le> 2 ^ 63 - 1"
  proof -
    from o have "stepIDToSeq ctx stepID = None \<longrightarrow> sint (sequenceNum ctx) < 2 ^ 63 - 1"
      by simp
    from Step_seq_bounded [OF b this st]
    have b1: "seq_bounded ctx1 s1" and u1: "sint (sequenceNum ctx1) \<le> sint (sequenceNum ctx) + 1"
      by simp_all
    from u1 o have "sint (sequenceNum ctx1) + int (length calls) \<le> 2 ^ 63 - 1" by simp
    with ih b1 have "seq_bounded ctx' s'"
      and "sint (sequenceNum ctx') \<le> sint (sequenceNum ctx1) + int (length calls)"
      by simp_all
    with u1 show ?thesis by simp
  qed
  from w mono seqs ag kw bd show ?case by blast
qed

lemma agrees_functional: "agrees ctx s \<Longrightarrow> seq_functional s (WorkflowID ctx)"
  unfolding agrees_def seq_functional_def by (metis option.inject)

lemma invariants_driver [simp]:
  "agrees ctx (s\<lparr>driver := d\<rparr>) = agrees ctx s"
  "seq_functional (s\<lparr>driver := d\<rparr>) w = seq_functional s w"
  "seq_bounded ctx (s\<lparr>driver := d\<rparr>) = seq_bounded ctx s"
  "keys_wellformed (s\<lparr>driver := d\<rparr>) = keys_wellformed s"
  by (simp_all add: agrees_def seq_functional_def seq_bounded_def keys_wellformed_def)


lemma GetMaxSequenceNum_ok:
  "driver s = [] \<Longrightarrow> GetMaxSequenceNum s w =
     ((case sql_max (map sequence_num (workflow_steps s w)) of None \<Rightarrow> 0 | Some m \<Rightarrow> m, None), s)"
  by (simp add: GetMaxSequenceNum_def db_call_ok split: option.splits)


text \<open>The increment is \<open>atomic.AddInt64\<close>, which wraps around: after a record that carries
  the largest \<open>int64\<close> the next number is the smallest one.\<close>

lemma sequence_num_wraps:
  "newContext ''w'' db_wrap = (Inr (hydrate db_wrap ''w''), db_wrap)
   \<and> map sequence_num (workflow_steps db_wrap ''w'') = [9223372036854775807]
   \<and> stepIDToSeq (hydrate db_wrap ''w'') ''b'' = None
   \<and> sint (fst (Step_seq (hydrate db_wrap ''w'') ''b'')) = - 9223372036854775808
   \<and> sint (fst (Step_seq (hydrate db_wrap ''w'') ''b'')) < sint (9223372036854775807 :: int64)
   \<and> map sequence_num (steps (fst (snd (snd
        (Step json_int64 (hydrate db_wrap ''w'') db_wrap (0 :: nat) ''b'' (counted 7))))))
       = [9223372036854775807, - 9223372036854775808]"
proof -
  have 1: "newContext ''w'' db_wrap = (Inr (hydrate db_wrap ''w''), db_wrap)"
    by (rule newContext_ok) (simp add: db_wrap_def)
  have 2: "map sequence_num (workflow_steps db_wrap ''w'') = [9223372036854775807]"
    by (simp add: workflow_steps_def db_wrap_def)
  have 3: "stepIDToSeq (hydrate db_wrap ''w'') ''b'' = None"
    by (simp add: table_defs db_wrap_def)
  have 4: "fst (Step_seq (hydrate db_wrap ''w'') ''b'') = - 9223372036854775808"
    by (simp add: Step_seq_def table_defs db_wrap_def)
  have 5: "sint (- 9223372036854775808 :: int64) = - 9223372036854775808" by simp
  have 6: "generateStepKey ''b'' 9223372036854775808 = ''b:-9223372036854775808''"
    by (simp add: generateStepKey_def FormatInt_def decimal.simps digit_def)
  have 7: "map sequence_num (steps (fst (snd (snd
        (Step json_int64 (hydrate db_wrap ''w'') db_wrap (0 :: nat) ''b'' (counted 7))))))
       = [9223372036854775807, - 9223372036854775808]"
    by (simp add: Step_def Step_seq_def Let_def 6 Step_database_def Step_execute_def
        ok_simps table_defs db_wrap_def counted_def json_int64_def)
  from 1 2 3 4 5 7 show ?thesis by simp
qed

text \<open>
  Sequence numbers of recorded steps. Start from records in which every step ID of the
  workflow has one sequence number. A first Context is hydrated and runs any \<open>Step\<close>
  calls; the process restarts, a second Context is hydrated from what the first left and
  runs any \<open>Step\<close> calls. Then within the first run equal step IDs work with equal
  sequence numbers; for every step ID that has a record of the workflow in the storage
  at the restart, every call of the first run and every call of the second run works
  with the sequence number of that record; and the records keep one sequence number per
  step ID. A step whose marker did not become a record of the workflow is outside this
  statement; the section on two workflows evaluates such a run.
\<close>

lemma sequence_num_stable_recorded:
  assumes fn0: "seq_functional s0 w"
    and nc1: "newContext w s0 = (Inr ctx0, s1)"
    and run1: "run_steps cdc ctx0 s1 u0 calls1 = (seqs1, ctx1, s2, u1)"
    and nc2: "newContext w s2 = (Inr ctx2, s3)"
    and run2: "run_steps cdc' ctx2 s3 u2 calls2 = (seqs2, ctx3, s4, u3)"
  shows "(\<forall>i<length calls1. \<forall>j<length calls1.
            fst (calls1 ! i) = fst (calls1 ! j) \<longrightarrow> seqs1 ! i = seqs1 ! j)
       \<and> (\<forall>r\<in>set (workflow_steps s2 w).
            (\<forall>i<length calls1. fst (calls1 ! i) = step_id r \<longrightarrow> seqs1 ! i = sequence_num r)
          \<and> (\<forall>i<length calls2. fst (calls2 ! i) = step_id r \<longrightarrow> seqs2 ! i = sequence_num r))
       \<and> (\<forall>k. k \<le> length calls1 \<and> k \<le> length calls2
              \<and> take k (map fst calls2) = take k (map fst calls1)
              \<and> (\<forall>c\<in>set (take k calls1). \<exists>r\<in>set (workflow_steps s2 w). step_id r = fst c)
            \<longrightarrow> take k seqs2 = take k seqs1)
       \<and> seq_functional s2 w \<and> seq_functional s4 w"
proof -
  from newContext_Inr [OF nc1] obtain d1 where c0: "ctx0 = hydrate s0 w"
    and s1: "s1 = s0\<lparr>driver := d1\<rparr>" by blast
  from newContext_Inr [OF nc2] obtain d2 where c2: "ctx2 = hydrate s2 w"
    and s3: "s3 = s2\<lparr>driver := d2\<rparr>" by blast
  have "agrees ctx0 s1" unfolding c0 s1 using fn0 by (simp add: hydrate_agrees)
  with run_steps_invariants [OF run1]
  have ag1: "agrees ctx1 s2" and w1: "WorkflowID ctx1 = w"
    and q1: "seqs1 = map (\<lambda>c. the (stepIDToSeq ctx1 (fst c))) calls1"
    by (simp_all add: c0)
  from agrees_functional [OF ag1] w1 have fn2: "seq_functional s2 w" by simp
  then have "agrees ctx2 s3" unfolding c2 s3 by (simp add: hydrate_agrees)
  with run_steps_invariants [OF run2]
  have ag3: "agrees ctx3 s4" and w3: "WorkflowID ctx3 = w"
    and q2: "seqs2 = map (\<lambda>c. the (stepIDToSeq ctx3 (fst c))) calls2"
    and mono: "\<And>x n. stepIDToSeq ctx2 x = Some n \<Longrightarrow> stepIDToSeq ctx3 x = Some n"
    by (simp_all add: c2)
  from agrees_functional [OF ag3] w3 have fn4: "seq_functional s4 w" by simp
  have same: "\<forall>i<length calls1. \<forall>j<length calls1.
            fst (calls1 ! i) = fst (calls1 ! j) \<longrightarrow> seqs1 ! i = seqs1 ! j"
    unfolding q1 by simp
  have rec1: "seqs1 ! i = sequence_num r"
    if "r \<in> set (workflow_steps s2 w)" "i < length calls1" "fst (calls1 ! i) = step_id r"
    for r i
  proof -
    from ag1 w1 that(1) have "stepIDToSeq ctx1 (step_id r) = Some (sequence_num r)"
      by (simp add: agrees_def)
    with that(2,3) show ?thesis by (simp add: q1)
  qed
  have rec2: "seqs2 ! i = sequence_num r"
    if "r \<in> set (workflow_steps s2 w)" "i < length calls2" "fst (calls2 ! i) = step_id r"
    for r i
  proof -
    from hydrate_mapping_row [OF fn2 that(1)]
    have "stepIDToSeq ctx2 (step_id r) = Some (sequence_num r)" by (simp add: c2)
    then have "stepIDToSeq ctx3 (step_id r) = Some (sequence_num r)" by (rule mono)
    with that(2,3) show ?thesis by (simp add: q2)
  qed
  have l1: "length seqs1 = length calls1" and l2: "length seqs2 = length calls2"
    by (simp_all add: q1 q2)
  have pre: "take k seqs2 = take k seqs1"
    if k1: "k \<le> length calls1" and k2: "k \<le> length calls2"
      and ids: "take k (map fst calls2) = take k (map fst calls1)"
      and rec: "\<forall>c\<in>set (take k calls1). \<exists>r\<in>set (workflow_steps s2 w). step_id r = fst c"
    for k
  proof (rule nth_equalityI)
    show "length (take k seqs2) = length (take k seqs1)"
      using k1 k2 l1 l2 by simp
  next
    fix i assume "i < length (take k seqs2)"
    with k2 l2 have i: "i < k" by simp
    with k1 k2 have i1: "i < length calls1" and i2: "i < length calls2" by simp_all
    from i i1 have "take k calls1 ! i \<in> set (take k calls1)"
      by (intro nth_mem) simp
    with i have "calls1 ! i \<in> set (take k calls1)" by simp
    with rec have "\<exists>r\<in>set (workflow_steps s2 w). step_id r = fst (calls1 ! i)" by (rule bspec)
    then obtain r where r: "r \<in> set (workflow_steps s2 w)"
      and e1: "fst (calls1 ! i) = step_id r" by auto
    from ids have "take k (map fst calls2) ! i = take k (map fst calls1) ! i" by simp
    with i i1 i2 have "fst (calls2 ! i) = fst (calls1 ! i)" by simp
    with e1 have e2: "fst (calls2 ! i) = step_id r" by simp
    from rec1 [OF r i1 e1] rec2 [OF r i2 e2] i
    show "take k seqs2 ! i = take k seqs1 ! i" by simp
  qed
  have rec12: "\<forall>r\<in>set (workflow_steps s2 w).
            (\<forall>i<length calls1. fst (calls1 ! i) = step_id r \<longrightarrow> seqs1 ! i = sequence_num r)
          \<and> (\<forall>i<length calls2. fst (calls2 ! i) = step_id r \<longrightarrow> seqs2 ! i = sequence_num r)"
    using rec1 rec2 by simp
  have pre': "\<forall>k. k \<le> length calls1 \<and> k \<le> length calls2
              \<and> take k (map fst calls2) = take k (map fst calls1)
              \<and> (\<forall>c\<in>set (take k calls1). \<exists>r\<in>set (workflow_steps s2 w). step_id r = fst c)
            \<longrightarrow> take k seqs2 = take k seqs1"
    using pre by simp
  show ?thesis
    by (intro conjI) (rule same, rule rec12, rule pre', rule fn2, rule fn4)
qed

lemma sequence_num_stable_recorded_example:
  "fst (run_steps json_int64 (hydrate empty_db ''w'') empty_db (0 :: nat)
          [(''a'', failing ''boom'')]) ! 0 = 1
   \<and> fst (run_steps json_int64 (hydrate db_failed ''w'') db_failed (1 :: nat)
          [(''a'', counted 12345)]) ! 0 = 1"
proof -
  have k: "generateStepKey ''a'' 1 = ''a:1''"
    by (simp add: generateStepKey_def FormatInt_def decimal.simps digit_def)
  have fn0: "seq_functional empty_db ''w''"
    by (simp add: seq_functional_def workflow_steps_def empty_db_def)
  have nc1: "newContext ''w'' empty_db = (Inr (hydrate empty_db ''w''), empty_db)"
    by (rule newContext_ok) (simp add: empty_db_def)
  have s2: "fst (snd (snd (run_steps json_int64 (hydrate empty_db ''w'') empty_db (0 :: nat)
      [(''a'', failing ''boom'')]))) = db_failed"
    by (simp add: Step_def Step_seq_def Let_def k Step_database_def Step_execute_def
        ok_simps table_defs empty_db_def db_failed_def failing_def json_int64_def)
  obtain seqs1 ctx1 s u1 where run1: "run_steps json_int64 (hydrate empty_db ''w'') empty_db
      (0 :: nat) [(''a'', failing ''boom'')] = (seqs1, ctx1, s, u1)"
    by (metis prod_cases4)
  with s2 have run1': "run_steps json_int64 (hydrate empty_db ''w'') empty_db
      (0 :: nat) [(''a'', failing ''boom'')] = (seqs1, ctx1, db_failed, u1)" by simp
  have nc2: "newContext ''w'' db_failed = (Inr (hydrate db_failed ''w''), db_failed)"
    by (rule newContext_ok) (simp add: db_failed_def)
  obtain seqs2 ctx3 s4 u3 where run2: "run_steps json_int64 (hydrate db_failed ''w'') db_failed
      (1 :: nat) [(''a'', counted 12345)] = (seqs2, ctx3, s4, u3)"
    by (metis prod_cases4)
  have r: "\<lparr>workflow_id = ''w'', step_id = ''a'', sequence_num = 1, step_key = ''a:1'',
        status = ''failed'', output_col = None, error_col = Some ''boom''\<rparr>
      \<in> set (workflow_steps db_failed ''w'')"
    by (simp add: workflow_steps_def db_failed_def)
  from sequence_num_stable_recorded [OF fn0 nc1 run1' nc2 run2] r
  have "seqs1 ! 0 = 1 \<and> seqs2 ! 0 = 1" by fastforce
  with run1' run2 show ?thesis by simp
qed

section \<open>Durable completion within one workflow\<close>

text \<open>
  What memoization rests on, and what fails in the run of the two workflows: when the
  step key is not held by a record of another workflow, a \<open>Step\<close> call whose Body
  returns a result leaves a completed record with the encoded result, \<open>GetStep\<close> returns
  it, and a Context hydrated afterwards has it in its cache (so that the next \<open>Step\<close>
  call under this key is a memo hit).
\<close>

lemma keys_upsert_step_in_progress:
  "map step_key (steps (upsert_step_in_progress w k i n s)) =
     (if \<exists>r\<in>set (steps s). step_key r = k then map step_key (steps s)
      else map step_key (steps s) @ [k])"
  by (simp add: upsert_step_in_progress_def comp_def)

lemma distinct_upsert_step_in_progress:
  assumes "distinct (map step_key (steps s))"
  shows "distinct (map step_key (steps (upsert_step_in_progress w k i n s)))"
  using assms by (auto simp: keys_upsert_step_in_progress)

lemma keys_update_step_completed [simp]:
  "map step_key (steps (update_step_completed out w k s)) = map step_key (steps s)"
  by (simp add: update_step_completed_def comp_def)

lemma update_step_completed_row:
  assumes "\<exists>r\<in>set (steps s). workflow_id r = w \<and> step_key r = k"
  shows "\<exists>r\<in>set (steps (update_step_completed out w k s)). workflow_id r = w \<and> step_key r = k
           \<and> status r = ''completed'' \<and> output_col r = Some out"
proof -
  from assms obtain r where r: "r \<in> set (steps s)" "workflow_id r = w" "step_key r = k"
    by blast
  then have m: "r\<lparr>status := ''completed'', output_col := Some out\<rparr>
      \<in> set (steps (update_step_completed out w k s))"
    by (force simp: update_step_completed_def image_iff)
  from r have "workflow_id (r\<lparr>status := ''completed'', output_col := Some out\<rparr>) = w
      \<and> step_key (r\<lparr>status := ''completed'', output_col := Some out\<rparr>) = k
      \<and> status (r\<lparr>status := ''completed'', output_col := Some out\<rparr>) = ''completed''
      \<and> output_col (r\<lparr>status := ''completed'', output_col := Some out\<rparr>) = Some out"
    by simp
  with m show ?thesis by (rule bexI [rotated])
qed

lemma foldl_completed_lookup:
  "foldl (\<lambda>m r. m(step_key r \<mapsto> scan_blob (output_col r))) m0 xs k =
     (case find (\<lambda>r. step_key r = k) (rev xs) of
        None \<Rightarrow> m0 k
      | Some r \<Rightarrow> Some (scan_blob (output_col r)))"
  by (induction xs rule: rev_induct) simp_all

lemma hydrate_completed_row:
  assumes u: "distinct (map step_key (steps s))"
    and r: "r \<in> set (steps s)" "workflow_id r = w" "status r = ''completed''"
  shows "completedSteps (hydrate s w) (step_key r) = Some (scan_blob (output_col r))"
proof -
  let ?rows = "filter (\<lambda>r. status r = ''completed'') (workflow_steps s w)"
  have d: "distinct (map step_key (rev ?rows))"
    using u by (simp add: workflow_steps_def distinct_map_filter distinct_rev rev_map [symmetric])
  have m: "r \<in> set (rev ?rows)" using r by (simp add: workflow_steps_def)
  have "find (\<lambda>x. step_key x = step_key r) (rev ?rows) = Some r"
    using d m by (rule find_unique) simp_all
  then show ?thesis by (simp add: hydrate_def foldl_completed_lookup)
qed

lemma Step_records_completion:
  assumes d: "driver s = []" and u: "distinct (map step_key (steps s))"
    and key: "key = generateStepKey stepID (fst (Step_seq ctx stepID))"
    and miss: "completedSteps ctx key = None"
    and nc: "\<forall>r\<in>set (steps s). workflow_id r = WorkflowID ctx \<and> step_key r = key
               \<longrightarrow> status r \<noteq> ''completed''"
    and own: "\<forall>r\<in>set (steps s). step_key r = key \<longrightarrow> workflow_id r = WorkflowID ctx"
    and body: "fn u = ((result, None), u')" and enc: "Marshal cdc result = Inr out"
    and st: "Step cdc ctx s u stepID fn = (res, ctx', s', u'')"
  shows "res = (result, None) \<and> u'' = u' \<and> completedSteps ctx' key = Some out
       \<and> GetStep s' (WorkflowID ctx) key = ((out, True, None), s')
       \<and> completedSteps (hydrate s' (WorkflowID ctx)) key = Some out"
proof -
  let ?w = "WorkflowID ctx"
  let ?seq = "fst (Step_seq ctx stepID)"
  let ?s1 = "upsert_step_in_progress ?w key stepID ?seq s"
  let ?s2 = "update_step_completed out ?w key ?s1"
  have "Step cdc ctx s u stepID fn =
     Step_execute cdc (snd (Step_seq ctx stepID)) s u stepID ?seq
       (generateStepKey stepID ?seq) fn"
    using d miss [unfolded key] nc [unfolded key] by (rule Step_runs_body)
  then have "Step cdc ctx s u stepID fn =
     Step_execute cdc (snd (Step_seq ctx stepID)) s u stepID ?seq key fn"
    by (simp only: key)
  with body enc have "Step cdc ctx s u stepID fn =
     ((result, None),
      (snd (Step_seq ctx stepID))\<lparr>completedSteps :=
         (completedSteps (snd (Step_seq ctx stepID)))(key \<mapsto> out)\<rparr>, ?s2, u')"
    by (simp add: Step_execute_ok [OF d])
  with st have res: "res = (result, None)" and u': "u'' = u'" and s': "s' = ?s2"
    and c: "completedSteps ctx' key = Some out"
    by auto
  have ds: "driver s' = []" unfolding s' using d by simp
  have us: "distinct (map step_key (steps s'))"
    unfolding s' using u by (simp add: distinct_upsert_step_in_progress)
  have "\<exists>r\<in>set (steps ?s1). workflow_id r = ?w \<and> step_key r = key"
    using own by (rule upsert_step_in_progress_row)
  then have "\<exists>r\<in>set (steps s'). workflow_id r = ?w \<and> step_key r = key
      \<and> status r = ''completed'' \<and> output_col r = Some out"
    unfolding s' by (rule update_step_completed_row)
  then obtain r where r: "r \<in> set (steps s')" "workflow_id r = ?w" "step_key r = key"
    "status r = ''completed''" "output_col r = Some out" by blast
  from select_step_unique [OF us r(1) r(2) r(3)] r(4,5) ds
  have g: "GetStep s' ?w key = ((out, True, None), s')"
    by (simp add: GetStep_ok scan_blob_def)
  from hydrate_completed_row [OF us r(1) r(2) r(4)] r(3,5)
  have h: "completedSteps (hydrate s' ?w) key = Some out"
    by (simp add: scan_blob_def)
  from res u' c g h show ?thesis by simp
qed

section \<open>The first step of a second workflow\<close>

lemma key_email2: "generateStepKey ''send-welcome-email'' 2 = ''send-welcome-email:2''"
  by (simp add: generateStepKey_def FormatInt_def decimal.simps digit_def)

lemma key_create3: "generateStepKey ''create-user-record'' 3 = ''create-user-record:3''"
  by (simp add: generateStepKey_def FormatInt_def decimal.simps digit_def)

lemma fmt1: "FormatInt 1 = ''1''"
  by (simp add: FormatInt_def decimal.simps digit_def)

lemma CreateWorkflow_db1:
  "CreateWorkflow db1 ''onboarding-employee-002'' = (None, db1_started)"
  by (simp add: ok_simps insert_or_ignore_workflow_def db1_def db1_started_def)

lemma GetWorkflowStatus_db1_started:
  "GetWorkflowStatus db1_started ''onboarding-employee-002'' = ((''running'', None), db1_started)"
  by (simp add: ok_simps select_workflow_def db1_def db1_started_def)

lemma newContext_db1_started:
  "newContext ''onboarding-employee-002'' db1_started
     = (Inr (hydrate db1_started ''onboarding-employee-002''), db1_started)"
  by (rule newContext_ok) (simp add: db1_started_def db1_def)

lemma hydrate_db1_started:
  "hydrate db1_started ''onboarding-employee-002''
     = \<lparr>WorkflowID = ''onboarding-employee-002'', sequenceNum = 0,
        completedSteps = Map.empty, stepIDToSeq = Map.empty\<rparr>"
  by (simp add: table_defs db1_started_def db1_def row1_def)

lemma Step_failing_db1_started:
  "Step json_int64 (hydrate db1_started ''onboarding-employee-002'') db1_started (0 :: nat)
       ''create-user-record'' (failing ''boom'')
     = ((0, Some (New ''boom'')),
        \<lparr>WorkflowID = ''onboarding-employee-002'', sequenceNum = 1,
         completedSteps = Map.empty, stepIDToSeq = [''create-user-record'' \<mapsto> 1]\<rparr>,
        db1_started\<lparr>steps := [row1 ''in_progress'']\<rparr>, Suc 0)"
  by (simp add: hydrate_db1_started Step_def Step_seq_def Let_def key1 Step_database_def
      Step_execute_def ok_simps table_defs db1_started_def db1_def row1_def failing_def
      json_int64_def)

lemma Execute_failing_db1:
  "Execute db1 0 ''onboarding-employee-002'' one_failing_step
     = (Some (Errorf ''workflow execution failed'' (New ''boom'')), db2, Suc 0)"
  by (simp add: scenario_simps one_failing_step_def failing_def db1_def db2_def row1_def)

text \<open>
  C7 (the code at a failing input). Workflow 001 has completed its step
  \<open>create-user-record\<close> (\<open>db1\<close>). \<open>Execute\<close> of workflow 002 creates the workflow, builds
  its Context and calls the workflow function, which calls \<open>Step\<close> with the same step ID
  and a Body that returns the error \<open>boom\<close>. \<open>Step\<close> returns the zero value and that
  error, but no record is failed: the upsert of \<open>MarkStepInProgress\<close> hits the row of
  workflow 001, which holds the key \<open>create-user-record:1\<close>, and sets it back to
  \<open>in_progress\<close>; \<open>SaveStepError\<close> (which selects by workflow and key) updates nothing,
  and \<open>Step\<close> drops its result. Table \<open>steps\<close> ends with the record of workflow 001
  alone, \<open>in_progress\<close> and without error text, and \<open>Execute\<close> ends in \<open>db2\<close>.
\<close>

theorem body_error_not_recorded:
  "Execute empty_db 0 ''onboarding-employee-001'' one_step = (None, db1, 1)
   \<and> CreateWorkflow db1 ''onboarding-employee-002'' = (None, db1_started)
   \<and> GetWorkflowStatus db1_started ''onboarding-employee-002''
       = ((''running'', None), db1_started)
   \<and> newContext ''onboarding-employee-002'' db1_started
       = (Inr (hydrate db1_started ''onboarding-employee-002''), db1_started)
   \<and> fst (Step json_int64 (hydrate db1_started ''onboarding-employee-002'') db1_started
          (0 :: nat) ''create-user-record'' (failing ''boom'')) = (0, Some (New ''boom''))
   \<and> steps (fst (snd (snd (Step json_int64 (hydrate db1_started ''onboarding-employee-002'')
          db1_started (0 :: nat) ''create-user-record'' (failing ''boom'')))))
       = [row1 ''in_progress'']
   \<and> status (row1 ''in_progress'') = ''in_progress''
   \<and> error_col (row1 ''in_progress'') = None
   \<and> workflow_id (row1 ''in_progress'') = ''onboarding-employee-001''
   \<and> Execute db1 0 ''onboarding-employee-002'' one_failing_step
       = (Some (Errorf ''workflow execution failed'' (New ''boom'')), db2, 1)
   \<and> steps db2 = [row1 ''in_progress'']"
  by (simp add: e1 CreateWorkflow_db1 GetWorkflowStatus_db1_started newContext_db1_started
      Step_failing_db1_started Execute_failing_db1 row1_def db2_def)

lemma run_two_steps_db1_started:
  "run_steps json_int64 (hydrate db1_started ''onboarding-employee-002'') db1_started (0 :: nat)
      two_steps
     = ([1, 2],
        \<lparr>WorkflowID = ''onboarding-employee-002'', sequenceNum = 2,
         completedSteps = [''create-user-record:1'' \<mapsto> ''12345'',
                           ''send-welcome-email:2'' \<mapsto> ''1''],
         stepIDToSeq = [''create-user-record'' \<mapsto> 1, ''send-welcome-email'' \<mapsto> 2]\<rparr>,
        db1_started\<lparr>steps := steps db_after_two_steps\<rparr>, 2)"
  by (simp add: two_steps_def hydrate_db1_started Step_def Step_seq_def Let_def key1 key_email2
      fmt12345 fmt1 Step_database_def Step_execute_def ok_simps table_defs db1_started_def
      db1_def db2_def row1_def row2_def db_after_two_steps_def counted_def json_int64_def
      numeral_2_eq_2)

lemma Execute_two_steps_crash:
  "Execute db1 (0 :: nat) ''onboarding-employee-002''
      (workflow_of json_int64 two_steps (Some (New ''simulated crash'')))
     = (Some (Errorf ''workflow execution failed'' (New ''simulated crash'')),
        db_after_two_steps, 2)"
  by (simp add: scenario_simps workflow_of_def two_steps_def key_email2 fmt1
      db1_def db2_def db_after_two_steps_def row1_def row2_def numeral_2_eq_2)

lemma CreateWorkflow_after_two_steps:
  "CreateWorkflow db_after_two_steps ''onboarding-employee-002'' = (None, db_after_two_steps)"
  by (simp add: ok_simps insert_or_ignore_workflow_def db2_def db_after_two_steps_def)

lemma GetWorkflowStatus_after_two_steps:
  "GetWorkflowStatus db_after_two_steps ''onboarding-employee-002''
     = ((''failed'', None), db_after_two_steps)"
  by (simp add: ok_simps select_workflow_def db2_def db_after_two_steps_def)

lemma newContext_after_two_steps:
  "newContext ''onboarding-employee-002'' db_after_two_steps
     = (Inr (hydrate db_after_two_steps ''onboarding-employee-002''), db_after_two_steps)"
  by (rule newContext_ok) (simp add: db_after_two_steps_def db2_def)

lemma hydrate_after_two_steps:
  "hydrate db_after_two_steps ''onboarding-employee-002''
     = \<lparr>WorkflowID = ''onboarding-employee-002'', sequenceNum = 2,
        completedSteps = [''send-welcome-email:2'' \<mapsto> ''1''],
        stepIDToSeq = [''send-welcome-email'' \<mapsto> 2]\<rparr>"
  by (simp add: table_defs db_after_two_steps_def db2_def row1_def row2_def)

lemma run_two_steps_replay:
  "run_steps json_int64 (hydrate db_after_two_steps ''onboarding-employee-002'')
       db_after_two_steps (0 :: nat) two_steps
     = ([3, 2],
        \<lparr>WorkflowID = ''onboarding-employee-002'', sequenceNum = 3,
         completedSteps = [''send-welcome-email:2'' \<mapsto> ''1'',
                           ''create-user-record:3'' \<mapsto> ''12345''],
         stepIDToSeq = [''send-welcome-email'' \<mapsto> 2, ''create-user-record'' \<mapsto> 3]\<rparr>,
        db_after_two_steps\<lparr>steps := steps db_after_replay\<rparr>, 1)"
  by (simp add: two_steps_def hydrate_after_two_steps Step_def Step_seq_def Let_def
      key_create3 key_email2 fmt12345 fmt1 Step_database_def Step_execute_def ok_simps
      table_defs db2_def db3_def row1_def row2_def db_after_two_steps_def db_after_replay_def
      counted_def json_int64_def parse12345)

lemma Execute_two_steps_replay:
  "Execute db_after_two_steps (0 :: nat) ''onboarding-employee-002''
      (workflow_of json_int64 two_steps None) = (None, db_after_replay, 1)"
  by (simp add: scenario_simps workflow_of_def two_steps_def key_email2 key_create3 fmt1
      parse12345 db2_def db3_def db_after_two_steps_def db_after_replay_def
      row1_def row2_def)

text \<open>
  C4 (the code at a failing input). Workflow 001 has completed its step
  \<open>create-user-record\<close> (\<open>db1\<close>). A first \<open>Execute\<close> of workflow 002 makes the steps
  \<open>create-user-record\<close> and \<open>send-welcome-email\<close> and then fails: in the Context that
  \<open>Execute\<close> builds, the two steps get the sequence numbers 1 and 2. The marker of the
  first one does not become a record of workflow 002, because the key
  \<open>create-user-record:1\<close> is held by the row of workflow 001 and the upsert of
  \<open>MarkStepInProgress\<close> updates that row; \<open>Step\<close> goes on, runs the Body and returns Ok.
  A second \<open>Execute\<close> of workflow 002 makes the same two steps: the Context hydrated from
  the table knows \<open>send-welcome-email\<close> only, with the counter at 2, and the two steps
  now get the sequence numbers 3 and 2. The two runs reach the same step IDs and
  \<open>create-user-record\<close> does not keep its number. The Body of that step runs in both
  runs (the caller's counter is 2 after the first run and 1 after the second, where
  \<open>send-welcome-email\<close> is a memo hit).
\<close>

theorem sequence_num_changes_after_restart:
  "Execute empty_db 0 ''onboarding-employee-001'' one_step = (None, db1, 1)
   \<and> CreateWorkflow db1 ''onboarding-employee-002'' = (None, db1_started)
   \<and> GetWorkflowStatus db1_started ''onboarding-employee-002''
       = ((''running'', None), db1_started)
   \<and> newContext ''onboarding-employee-002'' db1_started
       = (Inr (hydrate db1_started ''onboarding-employee-002''), db1_started)
   \<and> fst (run_steps json_int64 (hydrate db1_started ''onboarding-employee-002'') db1_started
          (0 :: nat) two_steps) = [1, 2]
   \<and> Execute db1 (0 :: nat) ''onboarding-employee-002''
        (workflow_of json_int64 two_steps (Some (New ''simulated crash'')))
       = (Some (Errorf ''workflow execution failed'' (New ''simulated crash'')),
          db_after_two_steps, 2)
   \<and> CreateWorkflow db_after_two_steps ''onboarding-employee-002'' = (None, db_after_two_steps)
   \<and> GetWorkflowStatus db_after_two_steps ''onboarding-employee-002''
       = ((''failed'', None), db_after_two_steps)
   \<and> newContext ''onboarding-employee-002'' db_after_two_steps
       = (Inr (hydrate db_after_two_steps ''onboarding-employee-002''), db_after_two_steps)
   \<and> fst (run_steps json_int64 (hydrate db_after_two_steps ''onboarding-employee-002'')
          db_after_two_steps (0 :: nat) two_steps) = [3, 2]
   \<and> Execute db_after_two_steps (0 :: nat) ''onboarding-employee-002''
        (workflow_of json_int64 two_steps None) = (None, db_after_replay, 1)"
  by (simp add: e1 CreateWorkflow_db1 GetWorkflowStatus_db1_started newContext_db1_started
      run_two_steps_db1_started Execute_two_steps_crash CreateWorkflow_after_two_steps
      GetWorkflowStatus_after_two_steps newContext_after_two_steps run_two_steps_replay
      Execute_two_steps_replay)

section \<open>Sequence numbers in a database that the engine has filled\<close>





















section \<open>The JSON codec\<close>


















end
